theory Spec2Isabelle
  imports Complex_Main
begin

section \<open>Burst detection in an envelope signal (minibrain/burstcounter.py)\<close>

text \<open>
  The development embeds \<^verbatim>\<open>Burst.long_burst\<close>, \<^verbatim>\<open>Burst.__init__\<close>,
  \<^verbatim>\<open>Burst.__call__\<close> and \<^verbatim>\<open>Burst.__len__\<close>. Samples and rates are
  real numbers and indices are Python integers (\<open>int\<close>); every exception the source can
  raise is a value. The arithmetic of lines 43 to 48, which computes the rate after
  decimation and the window length, is modelled in double precision: every division is
  rounded to the nearest double. Elsewhere (the standard deviation, the thresholds, the
  products \<^verbatim>\<open>0.100*srate\<close> and \<^verbatim>\<open>0.250*srate\<close>) the arithmetic is exact, and
  NaN is not modelled.
\<close>

subsection \<open>Python and numpy primitives used by the source\<close>

text \<open>The exceptions: those that the lines of the source can raise themselves, and one
  for whatever a function of \<^verbatim>\<open>minibrain.lfp\<close> raises.\<close>

datatype py_error = IndexError | ZeroDivisionError | OverflowError | CollaboratorError

text \<open>\<^verbatim>\<open>int(r)\<close> on a float: truncation toward zero.\<close>

definition py_int :: "real \<Rightarrow> int" where
  "py_int r = (if 0 \<le> r then \<lfloor>r\<rfloor> else \<lceil>r\<rceil>)"

text \<open>
  The bounds of a slice with step \<open>-1\<close> over a sequence of length \<open>n\<close>: a negative
  bound counts from the far side of the sequence, then the bound is clamped to
  \<open>-1 .. n - 1\<close>.
\<close>

definition adjust_rev :: "int \<Rightarrow> int \<Rightarrow> int" where
  "adjust_rev n i = (if i < 0 then (if i + n < 0 then - 1 else i + n)
                     else if n \<le> i then n - 1 else i)"

text \<open>\<^verbatim>\<open>xs[start:stop:-1]\<close>: the items at \<open>start, start - 1, ...\<close> down to, and
  without, \<open>stop\<close> (both adjusted).\<close>

definition slice_rev :: "'a list \<Rightarrow> int \<Rightarrow> int \<Rightarrow> 'a list" where
  "slice_rev xs start stop =
     (let n = int (length xs); hi = adjust_rev n start; lo = adjust_rev n stop
      in map (\<lambda>j. xs ! nat (hi - int j)) [0..<nat (hi - lo)])"

text \<open>\<^verbatim>\<open>np.where(cond)[0]\<close> on a one-dimensional array: the positions where the
  condition holds, in increasing order.\<close>

definition np_where :: "('a \<Rightarrow> bool) \<Rightarrow> 'a list \<Rightarrow> nat list" where
  "np_where c xs = filter (\<lambda>i. c (xs ! i)) [0..<length xs]"

text \<open>\<^verbatim>\<open>np.diff(p)\<close>: the differences of neighbours; empty for fewer than two items.\<close>

definition np_diff :: "int list \<Rightarrow> int list" where
  "np_diff p = map (\<lambda>i. p ! Suc i - p ! i) [0..<length p - 1]"

text \<open>\<^verbatim>\<open>p[i]\<close> for one integer: a negative index counts from the back, and an index
  outside the array raises IndexError.\<close>

definition py_index :: "'a list \<Rightarrow> int \<Rightarrow> py_error + 'a" where
  "py_index p i =
     (let n = int (length p); j = (if i < 0 then i + n else i)
      in if 0 \<le> j \<and> j < n then Inr (p ! nat j) else Inl IndexError)"

text \<open>\<^verbatim>\<open>p[js]\<close> for an integer array \<open>js\<close>: a fresh array of the selected
  items; IndexError if one index is outside.\<close>

fun take_indices :: "'a list \<Rightarrow> int list \<Rightarrow> py_error + 'a list" where
  "take_indices p [] = Inr []"
| "take_indices p (j # js) =
     (case py_index p j of
        Inl e \<Rightarrow> Inl e
      | Inr v \<Rightarrow> (case take_indices p js of Inl e \<Rightarrow> Inl e | Inr vs \<Rightarrow> Inr (v # vs)))"

text \<open>\<^verbatim>\<open>rmsdata.std()\<close>: the population standard deviation,
  \<open>sqrt (mean (|x - mean x|\<^sup>2))\<close>.\<close>

definition mean :: "real list \<Rightarrow> real" where
  "mean xs = sum_list xs / real (length xs)"

definition std :: "real list \<Rightarrow> real" where
  "std xs = sqrt (mean (map (\<lambda>v. \<bar>v - mean xs\<bar> ^ 2) xs))"

subsection \<open>Double precision\<close>

text \<open>
  A Python float is an IEEE 754 double, and \<^verbatim>\<open>/\<close> returns the double nearest to
  the exact quotient, a tie going to the even mantissa. \<open>fl x\<close> is that double for a
  real \<open>x\<close>: the mantissa has 53 bits, the exponent is at least \<open>-1022\<close> (below it
  the doubles are the multiples of \<open>2 powr (- 1074)\<close>), and a result of magnitude
  \<open>2 ^ 1024\<close> or more stands for an overflow, which the caller tests.
\<close>

definition round_even :: "real \<Rightarrow> int" where
  "round_even r =
     (let f = \<lfloor>r\<rfloor>
      in if r - of_int f < 1 / 2 then f
         else if 1 / 2 < r - of_int f then f + 1
         else if even f then f else f + 1)"

definition float_exp :: "real \<Rightarrow> int" where
  "float_exp x = max \<lfloor>log 2 \<bar>x\<bar>\<rfloor> (- 1022)"

definition float_ulp :: "real \<Rightarrow> real" where
  "float_ulp x = 2 powr real_of_int (float_exp x - 52)"

definition fl :: "real \<Rightarrow> real" where
  "fl x = (if x = 0 then 0 else real_of_int (round_even (x / float_ulp x)) * float_ulp x)"

subsection \<open>\<^verbatim>\<open>scipy.signal.find_peaks(x, height)\<close>\<close>

text \<open>
  The library finds the local maxima with one pass: a sample that is larger than its left
  neighbour opens a candidate; the scan looks ahead over the samples equal to it (a
  plateau) and the candidate is a maximum when the next different sample is smaller. The
  peak is the middle of the plateau (rounded down). The first and the last sample are never
  peaks. With \<open>height\<close> given, the peaks whose sample is at least \<open>height\<close> are
  kept.
\<close>

function skip_plateau :: "real list \<Rightarrow> nat \<Rightarrow> nat \<Rightarrow> nat" where
  "skip_plateau x i i_ahead =
     (if i_ahead < length x - 1 \<and> x ! i_ahead = x ! i
      then skip_plateau x i (i_ahead + 1) else i_ahead)"
  by pat_completeness auto
termination
  by (relation "measure (\<lambda>(x, i, i_ahead). length x - i_ahead)") auto

declare skip_plateau.simps [simp del]

lemma skip_plateau_ge: "i_ahead \<le> skip_plateau x i i_ahead"
proof (induction x i i_ahead rule: skip_plateau.induct)
  case (1 x i i_ahead)
  show ?case
  proof (cases "i_ahead < length x - 1 \<and> x ! i_ahead = x ! i")
    case True
    with 1 have "i_ahead + 1 \<le> skip_plateau x i (i_ahead + 1)" by simp
    moreover from True
    have "skip_plateau x i i_ahead = skip_plateau x i (i_ahead + 1)"
      by (simp add: skip_plateau.simps [of x i i_ahead])
    ultimately show ?thesis by simp
  next
    case False
    then have "skip_plateau x i i_ahead = i_ahead"
      by (subst skip_plateau.simps) auto
    then show ?thesis by simp
  qed
qed

function local_maxima_from :: "real list \<Rightarrow> nat \<Rightarrow> nat list" where
  "local_maxima_from x i =
     (if i < length x - 1 then
        (if x ! (i - 1) < x ! i then
           (let i_ahead = skip_plateau x i (i + 1) in
            if x ! i_ahead < x ! i
            then ((i + (i_ahead - 1)) div 2) # local_maxima_from x (i_ahead + 1)
            else local_maxima_from x (i + 1))
         else local_maxima_from x (i + 1))
      else [])"
  by pat_completeness auto
termination
proof (relation "measure (\<lambda>(x, i). length x - i)")
  show "wf (measure (\<lambda>(x, i). length x - i))" by simp
next
  fix x :: "real list" and i i_ahead :: nat
  assume a: "i < length x - 1" and b: "i_ahead = skip_plateau x i (i + 1)"
  have "i + 1 \<le> i_ahead" unfolding b by (rule skip_plateau_ge)
  with a show "((x, i_ahead + 1), (x, i)) \<in> measure (\<lambda>(x, i). length x - i)" by simp
qed auto

declare local_maxima_from.simps [simp del]

definition local_maxima_1d :: "real list \<Rightarrow> nat list" where
  "local_maxima_1d x = local_maxima_from x 1"

definition find_peaks :: "real list \<Rightarrow> real \<Rightarrow> int list" where
  "find_peaks x height = map int (filter (\<lambda>m. height \<le> x ! m) (local_maxima_1d x))"

subsection \<open>\<^verbatim>\<open>Burst.long_burst\<close>\<close>

text \<open>
  The body of the first loop (lines 101 to 108) for one provisional start \<open>x\<close>: the
  window is read backward from \<open>x\<close>, and the position of the first sample below
  \<open>lowthr\<close> is subtracted; \<^verbatim>\<open>val[0]\<close> on an empty array raises the IndexError
  that the loop swallows.
\<close>

definition refine_start :: "real list \<Rightarrow> real \<Rightarrow> real \<Rightarrow> int \<Rightarrow> int" where
  "refine_start rmsdata srate lowthr x =
     (let tmp = slice_rev rmsdata x (x - py_int (0.100 * srate));
          val = np_where (\<lambda>v. v < lowthr) tmp
      in case val of [] \<Rightarrow> x | k # _ \<Rightarrow> x - int k)"

text \<open>
  The body of the second loop (lines 115 to 122) for one provisional end \<open>x\<close>: the
  window is read from its far side back to \<open>x\<close> (without \<open>x\<close>).
\<close>

definition refine_end :: "real list \<Rightarrow> real \<Rightarrow> real \<Rightarrow> int \<Rightarrow> int" where
  "refine_end rmsdata srate lowthr x =
     (let tmp = slice_rev rmsdata (x + py_int (0.250 * srate)) x;
          val = np_where (\<lambda>v. lowthr < v) tmp
      in case val of [] \<Rightarrow> x | k # _ \<Rightarrow> x + (py_int (0.250 * srate) - int k))"

text \<open>
  Lines 93 to 126, for the peaks \<open>p\<close> and the threshold \<open>lowthr\<close> of lines 88 to 90.
  Each loop reads \<open>x\<close> from position \<open>i\<close> of its array and writes position \<open>i\<close>
  only, so it is a map over the array. \<^verbatim>\<open>p[start]\<close> and \<^verbatim>\<open>p[end]\<close> are
  copies: the loops do not change \<open>p\<close>.
\<close>

definition large_gaps :: "int list \<Rightarrow> real \<Rightarrow> nat list" where
  "large_gaps p srate = np_where (\<lambda>d. 1 * srate < real_of_int d) (np_diff p)"

definition bursts_of_peaks ::
  "real list \<Rightarrow> real \<Rightarrow> real \<Rightarrow> int list \<Rightarrow> py_error + (int \<times> int) list" where
  "bursts_of_peaks rmsdata srate lowthr p =
     (let idx = large_gaps p srate;
          start = [0] @ map (\<lambda>i. int i + 1) idx
      in case take_indices p start of
           Inl e \<Rightarrow> Inl e
         | Inr pstart \<Rightarrow>
             (let pstart' = map (refine_start rmsdata srate lowthr) pstart;
                  end_idx = map int idx @ [- 1]
              in case take_indices p end_idx of
                   Inl e \<Rightarrow> Inl e
                 | Inr pend \<Rightarrow>
                     Inr (zip pstart' (map (refine_end rmsdata srate lowthr) pend))))"

definition long_burst :: "real list \<Rightarrow> real \<Rightarrow> py_error + (int \<times> int) list" where
  "long_burst rmsdata srate =
     (let lowthr = std rmsdata;
          highthr = std rmsdata * 5;
          p = find_peaks rmsdata highthr
      in bursts_of_peaks rmsdata srate lowthr p)"

text \<open>Names for the intermediate values of a call, used to state the properties: the
  peaks of line 90, and the provisional starts and ends of lines 99 and 113.\<close>

definition peaks :: "real list \<Rightarrow> int list" where
  "peaks rmsdata = find_peaks rmsdata (std rmsdata * 5)"

definition provisional_starts :: "int list \<Rightarrow> real \<Rightarrow> int list" where
  "provisional_starts p srate = p ! 0 # map (\<lambda>i. p ! Suc i) (large_gaps p srate)"

definition provisional_ends :: "int list \<Rightarrow> real \<Rightarrow> int list" where
  "provisional_ends p srate = map (\<lambda>i. p ! i) (large_gaps p srate) @ [last p]"

subsection \<open>The class \<^verbatim>\<open>Burst\<close> and the module\<close>

text \<open>
  \<^verbatim>\<open>minibrain.lfp\<close> is not part of the sources at hand: its three functions are
  parameters of the model, each returning an array or raising.
\<close>

record lfp_module =
  band_pass :: "real list \<Rightarrow> real \<Rightarrow> real \<Rightarrow> real \<Rightarrow> py_error + real list"
  decimate :: "real list \<Rightarrow> int \<Rightarrow> py_error + real list"
  rms :: "real list \<Rightarrow> int \<Rightarrow> py_error + real list"

text \<open>
  Lines 43 to 48: the window length handed to \<^verbatim>\<open>lfp.rms\<close>. The rate is a double
  or a Python integer. \<^verbatim>\<open>srate/60\<close> is rounded; for an integer too large for a
  double it raises OverflowError. \<^verbatim>\<open>1/mysrate\<close> raises for a rate that rounds to
  zero; when it overflows, \<^verbatim>\<open>dt\<close> is infinite, \<^verbatim>\<open>0.005/dt\<close> is zero and so
  is the window length. The literal \<^verbatim>\<open>0.005\<close> is the double nearest to 0.005.
\<close>

definition rms_segment :: "real \<Rightarrow> py_error + int" where
  "rms_segment srate =
     (let mysrate = fl (srate / 60)
      in if 2 ^ 1024 \<le> \<bar>mysrate\<bar> then Inl OverflowError
         else if mysrate = 0 then Inl ZeroDivisionError
         else (let dt = fl (1 / mysrate)
               in if 2 ^ 1024 \<le> \<bar>dt\<bar> then Inr 0
                  else (let mysegment = fl (fl 0.005 / dt) in Inr (py_int mysegment))))"

record Burst =
  idx :: "(int \<times> int) list"

text \<open>\<^verbatim>\<open>Burst.__init__\<close>: the value of \<^verbatim>\<open>self.idx\<close>, or the exception.\<close>

definition Burst_init ::
  "lfp_module \<Rightarrow> real list option \<Rightarrow> real \<Rightarrow> py_error + Burst" where
  "Burst_init lib data srate =
     (case data of
        None \<Rightarrow> Inr \<lparr>idx = []\<rparr>
      | Some d \<Rightarrow>
          (case band_pass lib d 90 250 srate of
             Inl e \<Rightarrow> Inl e
           | Inr myrecBP \<Rightarrow>
               (case decimate lib myrecBP 60 of
                  Inl e \<Rightarrow> Inl e
                | Inr myrecDS \<Rightarrow>
                    (case rms_segment srate of
                       Inl e \<Rightarrow> Inl e
                     | Inr segment \<Rightarrow>
                         (case rms lib myrecDS segment of
                            Inl e \<Rightarrow> Inl e
                          | Inr myrms \<Rightarrow>
                              (case long_burst myrms (fl (srate / 60)) of
                                 Inl e \<Rightarrow> Inl e
                               | Inr r \<Rightarrow> Inr \<lparr>idx = r\<rparr>))))))"

text \<open>
  Objects live in a store, addressed by their position; constructing an object appends
  it. \<^verbatim>\<open>Burst.__call__\<close> does not touch \<open>self\<close>: it constructs a new object
  and returns its address.
\<close>

type_synonym store = "Burst list"

definition new_Burst ::
  "lfp_module \<Rightarrow> real list option \<Rightarrow> real \<Rightarrow> store \<Rightarrow> py_error + (nat \<times> store)" where
  "new_Burst lib data srate st =
     (case Burst_init lib data srate of
        Inl e \<Rightarrow> Inl e
      | Inr b \<Rightarrow> Inr (length st, st @ [b]))"

definition Burst_call ::
  "lfp_module \<Rightarrow> nat \<Rightarrow> real list option \<Rightarrow> real \<Rightarrow> store \<Rightarrow> py_error + (nat \<times> store)" where
  "Burst_call lib self data srate st = new_Burst lib data srate st"

definition Burst_len :: "nat \<Rightarrow> store \<Rightarrow> nat" where
  "Burst_len self st = length (idx (st ! self))"

text \<open>Line 129: \<^verbatim>\<open>burst = Burst(srate = 30000)\<close>, on the empty store.\<close>

definition module_burst :: "lfp_module \<Rightarrow> py_error + (nat \<times> store)" where
  "module_burst lib = new_Burst lib None 30000 []"

text \<open>A series of detection calls through the object at \<open>self\<close>; a call that raises
  leaves the store as it was.\<close>

fun calls_through ::
  "lfp_module \<Rightarrow> nat \<Rightarrow> (real list option \<times> real) list \<Rightarrow> store \<Rightarrow> store" where
  "calls_through lib self [] st = st"
| "calls_through lib self ((data, srate) # cs) st =
     (case Burst_call lib self data srate st of
        Inl e \<Rightarrow> calls_through lib self cs st
      | Inr (a, st') \<Rightarrow> calls_through lib self cs st')"

subsection \<open>A sample envelope\<close>

text \<open>
  54 samples: two spikes of height 66 at the positions 1 and 51, a shoulder of height 30
  at position 52, zero elsewhere. The mean is 3 and the standard deviation 13, so
  \<open>lowthr = 13\<close> and \<open>highthr = 65\<close>.
\<close>

definition example_envelope :: "real list" where
  "example_envelope = 0 # 66 # replicate 49 0 @ [66, 30, 0]"

text \<open>The same samples with the shoulder behind the first spike, at position 2.\<close>

definition shoulder_envelope :: "real list" where
  "shoulder_envelope = 0 # 66 # 30 # replicate 48 0 @ [66, 0, 0]"

subsection \<open>Groups of peaks\<close>

text \<open>
  The grouping in the words of the specification, to compare with lines 93 to 99 and 112
  to 113: the peaks are cut into groups at every large gap, a gap being large when it
  exceeds one second of samples. The peak after a large gap starts a new group and the peak
  before it ends the group before.
\<close>

fun peak_groups :: "real \<Rightarrow> int list \<Rightarrow> int list list" where
  "peak_groups srate [] = []"
| "peak_groups srate [a] = [[a]]"
| "peak_groups srate (a # b # ps) =
     (if 1 * srate < real_of_int (b - a) then [a] # peak_groups srate (b # ps)
      else (case peak_groups srate (b # ps) of
              [] \<Rightarrow> [[a]]
            | g # gs \<Rightarrow> (a # g) # gs))"

text \<open>A stand-in for \<^verbatim>\<open>minibrain.lfp\<close> in examples: each function hands its
  input back.\<close>

definition passthrough_lfp :: lfp_module where
  "passthrough_lfp =
     \<lparr>band_pass = (\<lambda>d low high srate. Inr d),
      decimate = (\<lambda>d q. Inr d),
      rms = (\<lambda>d segment. Inr d)\<rparr>"

section \<open>Properties of the primitives\<close>

subsection \<open>The peaks are valid, increasing positions\<close>

lemma skip_plateau_le:
  "i_ahead \<le> length x - 1 \<Longrightarrow> skip_plateau x i i_ahead \<le> length x - 1"
proof (induction x i i_ahead rule: skip_plateau.induct)
  case (1 x i i_ahead)
  show ?case
  proof (cases "i_ahead < length x - 1 \<and> x ! i_ahead = x ! i")
    case True
    then have "skip_plateau x i i_ahead = skip_plateau x i (i_ahead + 1)"
      by (simp add: skip_plateau.simps [of x i i_ahead])
    moreover from True 1 have "skip_plateau x i (i_ahead + 1) \<le> length x - 1" by simp
    ultimately show ?thesis by simp
  next
    case False
    then have "skip_plateau x i i_ahead = i_ahead"
      by (subst skip_plateau.simps) auto
    with 1(2) show ?thesis by simp
  qed
qed

lemma local_maxima_from_bounds:
  "m \<in> set (local_maxima_from x i) \<Longrightarrow> i \<le> m \<and> m < length x - 1"
proof (induction x i rule: local_maxima_from.induct)
  case (1 x i)
  show ?case
  proof (cases "i < length x - 1")
    case False
    with 1(4) show ?thesis by (simp add: local_maxima_from.simps [of x i])
  next
    case inside: True
    define a where "a = skip_plateau x i (i + 1)"
    have a_lo: "i + 1 \<le> a" unfolding a_def by (rule skip_plateau_ge)
    have a_hi: "a \<le> length x - 1" unfolding a_def using inside by (intro skip_plateau_le) simp
    show ?thesis
    proof (cases "x ! (i - 1) < x ! i \<and> x ! a < x ! i")
      case True
      then have eq: "local_maxima_from x i = ((i + (a - 1)) div 2) # local_maxima_from x (a + 1)"
        using inside by (simp add: local_maxima_from.simps [of x i] a_def Let_def)
      from 1(4) eq consider "m = (i + (a - 1)) div 2" | "m \<in> set (local_maxima_from x (a + 1))"
        by auto
      then show ?thesis
      proof cases
        case 1
        with a_lo a_hi show ?thesis by auto
      next
        case 2
        with 1(1) [OF inside _ a_def] True have "a + 1 \<le> m \<and> m < length x - 1" by simp
        with a_lo show ?thesis by simp
      qed
    next
      case False
      then have eq: "local_maxima_from x i = local_maxima_from x (i + 1)"
        using inside by (auto simp add: local_maxima_from.simps [of x i] a_def Let_def)
      with 1(4) have mem: "m \<in> set (local_maxima_from x (i + 1))" by simp
      from False have "\<not> x ! (i - 1) < x ! i \<or> (x ! (i - 1) < x ! i \<and> \<not> x ! a < x ! i)" by auto
      then have "i + 1 \<le> m \<and> m < length x - 1"
      proof
        assume h: "\<not> x ! (i - 1) < x ! i"
        from 1(3) [OF inside h mem] show ?thesis .
      next
        assume h: "x ! (i - 1) < x ! i \<and> \<not> x ! a < x ! i"
        from 1(2) [OF inside _ a_def _ mem] h show ?thesis by simp
      qed
      then show ?thesis by simp
    qed
  qed
qed

lemma local_maxima_from_sorted: "sorted_wrt (<) (local_maxima_from x i)"
proof (induction x i rule: local_maxima_from.induct)
  case (1 x i)
  show ?case
  proof (cases "i < length x - 1")
    case False
    then show ?thesis by (simp add: local_maxima_from.simps [of x i])
  next
    case inside: True
    define a where "a = skip_plateau x i (i + 1)"
    have a_lo: "i + 1 \<le> a" unfolding a_def by (rule skip_plateau_ge)
    show ?thesis
    proof (cases "x ! (i - 1) < x ! i \<and> x ! a < x ! i")
      case True
      then have eq: "local_maxima_from x i = ((i + (a - 1)) div 2) # local_maxima_from x (a + 1)"
        using inside by (simp add: local_maxima_from.simps [of x i] a_def Let_def)
      from 1(1) [OF inside _ a_def] True have "sorted_wrt (<) (local_maxima_from x (a + 1))" by simp
      moreover have "(i + (a - 1)) div 2 < m" if "m \<in> set (local_maxima_from x (a + 1))" for m
        using local_maxima_from_bounds [OF that] a_lo by auto
      ultimately show ?thesis unfolding eq by simp
    next
      case False
      then have eq: "local_maxima_from x i = local_maxima_from x (i + 1)"
        using inside by (auto simp add: local_maxima_from.simps [of x i] a_def Let_def)
      from False have "\<not> x ! (i - 1) < x ! i \<or> (x ! (i - 1) < x ! i \<and> \<not> x ! a < x ! i)" by auto
      then have "sorted_wrt (<) (local_maxima_from x (i + 1))"
      proof
        assume h: "\<not> x ! (i - 1) < x ! i"
        from 1(3) [OF inside h] show ?thesis .
      next
        assume h: "x ! (i - 1) < x ! i \<and> \<not> x ! a < x ! i"
        from 1(2) [OF inside _ a_def] h show ?thesis by simp
      qed
      then show ?thesis unfolding eq .
    qed
  qed
qed

lemma find_peaks_bounds:
  assumes "m \<in> set (find_peaks x h)"
  shows "0 < m \<and> m < int (length x) - 1"
proof -
  from assms obtain k where k: "m = int k" "k \<in> set (local_maxima_from x 1)"
    by (auto simp add: find_peaks_def local_maxima_1d_def)
  from local_maxima_from_bounds [OF k(2)] have "1 \<le> k \<and> k < length x - 1" .
  with k(1) show ?thesis by auto
qed

lemma find_peaks_sorted: "sorted_wrt (<) (find_peaks x h)"
proof -
  have "sorted_wrt (<) (filter (\<lambda>m. h \<le> x ! m) (local_maxima_1d x))"
    unfolding local_maxima_1d_def by (intro sorted_wrt_filter local_maxima_from_sorted)
  then show ?thesis
    by (simp add: find_peaks_def sorted_wrt_map)
qed

subsection \<open>Positions, slices and truncation\<close>

lemma np_where_Nil: "np_where c xs = [] \<longleftrightarrow> (\<forall>j<length xs. \<not> c (xs ! j))"
  by (auto simp add: np_where_def filter_empty_conv)

lemma np_where_Cons:
  assumes "np_where c xs = k # ks"
  shows "k < length xs \<and> c (xs ! k) \<and> (\<forall>j<k. \<not> c (xs ! j))"
proof -
  from assms have f: "filter (\<lambda>i. c (xs ! i)) [0..<length xs] = k # ks"
    by (simp add: np_where_def)
  then obtain us vs where split: "[0..<length xs] = us @ k # vs"
    and us: "\<forall>u\<in>set us. \<not> c (xs ! u)" and ck: "c (xs ! k)"
    by (auto simp add: filter_eq_Cons_iff)
  have "k \<in> set [0..<length xs]" unfolding split by simp
  then have klt: "k < length xs" by simp
  have "sorted_wrt (<) (us @ k # vs)" using sorted_wrt_upt [of 0 "length xs"] unfolding split .
  then have below: "\<forall>u\<in>set us. u < k" by (simp add: sorted_wrt_append)
  have "j \<in> set us" if "j < k" for j
  proof -
    from that klt have "j \<in> set [0..<length xs]" by simp
    then have "j \<in> set us \<or> j = k \<or> j \<in> set vs" unfolding split by auto
    moreover have "\<forall>v\<in>set vs. k < v"
      using \<open>sorted_wrt (<) (us @ k # vs)\<close> by (simp add: sorted_wrt_append)
    ultimately show ?thesis using that by fastforce
  qed
  with us ck klt show ?thesis by blast
qed

lemma np_where_first:
  assumes "k < length xs" "c (xs ! k)" "\<forall>j<k. \<not> c (xs ! j)"
  shows "\<exists>ks. np_where c xs = k # ks"
proof (cases "np_where c xs")
  case Nil
  with assms show ?thesis by (simp add: np_where_Nil)
next
  case (Cons k' ks)
  from np_where_Cons [OF Cons] have k': "k' < length xs" "c (xs ! k')" "\<forall>j<k'. \<not> c (xs ! j)"
    by auto
  from assms k' have "k = k'" by (meson linorder_neqE_nat)
  with Cons show ?thesis by simp
qed

lemma length_slice_rev:
  "length (slice_rev xs a b) = nat (adjust_rev (int (length xs)) a - adjust_rev (int (length xs)) b)"
  by (simp add: slice_rev_def Let_def)

lemma nth_slice_rev:
  "j < length (slice_rev xs a b) \<Longrightarrow>
   slice_rev xs a b ! j = xs ! nat (adjust_rev (int (length xs)) a - int j)"
  by (simp add: slice_rev_def Let_def)

lemma adjust_rev_inside: "0 \<le> i \<Longrightarrow> i < n \<Longrightarrow> adjust_rev n i = i"
  by (simp add: adjust_rev_def)

lemma adjust_rev_ge: "0 \<le> n \<Longrightarrow> - 1 \<le> adjust_rev n i"
  by (simp add: adjust_rev_def)

lemma adjust_rev_lower: "0 \<le> n \<Longrightarrow> i < n \<Longrightarrow> i \<le> adjust_rev n i"
  by (simp add: adjust_rev_def)

lemma adjust_rev_upper: "0 \<le> i \<Longrightarrow> adjust_rev n i \<le> i"
  by (simp add: adjust_rev_def)

lemma py_int_nonneg: "0 \<le> r \<Longrightarrow> 0 \<le> py_int r"
  by (simp add: py_int_def)

lemma py_int_nonpos: "r \<le> 0 \<Longrightarrow> py_int r \<le> 0"
  by (auto simp add: py_int_def)

lemma py_int_le: "0 \<le> r \<Longrightarrow> real_of_int (py_int r) \<le> r"
  by (simp add: py_int_def)

subsection \<open>One step of edge refinement\<close>

lemma refine_start_cases:
  assumes x: "0 \<le> x" "x < int (length rmsdata)"
  shows "refine_start rmsdata srate lowthr x = x \<or>
         (\<exists>k. 0 < py_int (0.100 * srate) \<and> refine_start rmsdata srate lowthr x = x - int k
              \<and> int k < py_int (0.100 * srate) \<and> int k \<le> x)"
proof (cases "np_where (\<lambda>v. v < lowthr) (slice_rev rmsdata x (x - py_int (0.100 * srate)))")
  case Nil
  then show ?thesis by (simp add: refine_start_def)
next
  case (Cons k ks)
  define n where "n = int (length rmsdata)"
  define w where "w = py_int (0.100 * srate)"
  define lo where "lo = adjust_rev n (x - w)"
  from np_where_Cons [OF Cons] have "k < length (slice_rev rmsdata x (x - py_int (0.100 * srate)))"
    by simp
  then have "int k < adjust_rev n x - lo"
    by (simp add: length_slice_rev n_def lo_def w_def)
  with x have klt: "int k < x - lo" by (simp add: adjust_rev_inside n_def)
  have "- 1 \<le> lo" unfolding lo_def by (rule adjust_rev_ge) (simp add: n_def)
  with klt have kx: "int k \<le> x" by simp
  have "x - w \<le> lo"
  proof (cases "x - w < n")
    case True
    then show ?thesis unfolding lo_def using x by (intro adjust_rev_lower) (simp_all add: n_def)
  next
    case False
    then have "lo = n - 1" by (simp add: lo_def adjust_rev_def n_def)
    with klt x show ?thesis by (simp add: n_def)
  qed
  with klt have "int k < w" by simp
  moreover from this have "0 < w" by simp
  moreover from Cons have "refine_start rmsdata srate lowthr x = x - int k"
    by (simp add: refine_start_def)
  ultimately show ?thesis using kx unfolding w_def by blast
qed

lemma refine_end_cases:
  assumes W: "0 \<le> py_int (0.250 * srate)" and x: "0 \<le> x"
  shows "refine_end rmsdata srate lowthr x = x \<or>
         (\<exists>k. refine_end rmsdata srate lowthr x = x + (py_int (0.250 * srate) - int k)
              \<and> int k < py_int (0.250 * srate))"
proof (cases "np_where (\<lambda>v. lowthr < v) (slice_rev rmsdata (x + py_int (0.250 * srate)) x)")
  case Nil
  then show ?thesis by (simp add: refine_end_def)
next
  case (Cons k ks)
  define n where "n = int (length rmsdata)"
  define W where "W = py_int (0.250 * srate)"
  from np_where_Cons [OF Cons] have "k < length (slice_rev rmsdata (x + py_int (0.250 * srate)) x)"
    by simp
  then have klt: "int k < adjust_rev n (x + W) - adjust_rev n x"
    by (simp add: length_slice_rev n_def W_def)
  then have "x < n" using x by (auto simp add: adjust_rev_def n_def W_def split: if_splits)
  with x have "adjust_rev n x = x" by (simp add: adjust_rev_inside)
  moreover have "adjust_rev n (x + W) \<le> x + W"
    using assms by (intro adjust_rev_upper) (simp add: W_def)
  ultimately have "int k < W" using klt by simp
  moreover from Cons have "refine_end rmsdata srate lowthr x = x + (W - int k)"
    by (simp add: refine_end_def W_def)
  ultimately show ?thesis unfolding W_def by blast
qed

subsection \<open>The shape of the result of \<^verbatim>\<open>long_burst\<close>\<close>

lemma large_gaps_set:
  "set (large_gaps p srate) = {i. Suc i < length p \<and> srate < real_of_int (p ! Suc i - p ! i)}"
  by (auto simp add: large_gaps_def np_where_def np_diff_def)

lemma large_gaps_sorted: "sorted_wrt (<) (large_gaps p srate)"
  by (simp add: large_gaps_def np_where_def sorted_wrt_filter)

lemma large_gaps_distinct: "distinct (large_gaps p srate)"
  by (simp add: large_gaps_def np_where_def)

lemma py_index_inside: "0 \<le> i \<Longrightarrow> i < int (length p) \<Longrightarrow> py_index p i = Inr (p ! nat i)"
  by (simp add: py_index_def)

lemma py_index_last:
  assumes "p \<noteq> []"
  shows "py_index p (- 1) = Inr (last p)"
proof -
  from assms have "0 < length p" by simp
  then have "nat (int (length p) - 1) = length p - 1" by linarith
  with assms show ?thesis by (simp add: py_index_def last_conv_nth)
qed

lemma take_indices_inside:
  "\<forall>j\<in>set js. 0 \<le> j \<and> j < int (length p) \<Longrightarrow>
   take_indices p js = Inr (map (\<lambda>j. p ! nat j) js)"
  by (induction js) (simp_all add: py_index_inside)

lemma take_indices_append:
  "take_indices p js = Inr vs \<Longrightarrow> take_indices p ks = Inr ws \<Longrightarrow>
   take_indices p (js @ ks) = Inr (vs @ ws)"
  by (induction js arbitrary: vs) (auto split: sum.splits)

lemma take_starts:
  assumes "p \<noteq> []"
  shows "take_indices p ([0] @ map (\<lambda>i. int i + 1) (large_gaps p srate)) =
         Inr (provisional_starts p srate)"
proof -
  have "\<forall>j\<in>set ([0] @ map (\<lambda>i. int i + 1) (large_gaps p srate)). 0 \<le> j \<and> j < int (length p)"
    using assms by (auto simp add: large_gaps_set)
  from take_indices_inside [OF this] show ?thesis
    by (simp add: provisional_starts_def comp_def nat_add_distrib)
qed

lemma take_ends:
  assumes "p \<noteq> []"
  shows "take_indices p (map int (large_gaps p srate) @ [- 1]) = Inr (provisional_ends p srate)"
proof -
  have "\<forall>j\<in>set (map int (large_gaps p srate)). 0 \<le> j \<and> j < int (length p)"
    by (auto simp add: large_gaps_set)
  from take_indices_inside [OF this]
  have "take_indices p (map int (large_gaps p srate)) = Inr (map (\<lambda>i. p ! i) (large_gaps p srate))"
    by (simp add: comp_def)
  moreover from assms have "take_indices p [- 1] = Inr [last p]"
    by (simp add: py_index_last)
  ultimately show ?thesis unfolding provisional_ends_def by (rule take_indices_append)
qed

lemma bursts_of_peaks_Nil: "bursts_of_peaks rmsdata srate lowthr [] = Inl IndexError"
  by (simp add: bursts_of_peaks_def large_gaps_def np_diff_def np_where_def py_index_def)

lemma bursts_of_peaks_nonempty:
  assumes "p \<noteq> []"
  shows "bursts_of_peaks rmsdata srate lowthr p =
         Inr (zip (map (refine_start rmsdata srate lowthr) (provisional_starts p srate))
                  (map (refine_end rmsdata srate lowthr) (provisional_ends p srate)))"
  using take_starts [OF assms, of srate] take_ends [OF assms, of srate]
  by (simp add: bursts_of_peaks_def Let_def)

lemma long_burst_no_peaks: "peaks rmsdata = [] \<Longrightarrow> long_burst rmsdata srate = Inl IndexError"
  by (simp add: long_burst_def peaks_def Let_def bursts_of_peaks_Nil)

lemma long_burst_peaks:
  "peaks rmsdata \<noteq> [] \<Longrightarrow>
   long_burst rmsdata srate =
     Inr (zip (map (refine_start rmsdata srate (std rmsdata)) (provisional_starts (peaks rmsdata) srate))
              (map (refine_end rmsdata srate (std rmsdata)) (provisional_ends (peaks rmsdata) srate)))"
  by (simp add: long_burst_def peaks_def Let_def bursts_of_peaks_nonempty)

lemma long_burst_Inr_iff: "(\<exists>res. long_burst rmsdata srate = Inr res) \<longleftrightarrow> peaks rmsdata \<noteq> []"
  by (cases "peaks rmsdata = []") (simp_all add: long_burst_no_peaks long_burst_peaks)

lemma length_provisional_starts:
  "length (provisional_starts p srate) = Suc (length (large_gaps p srate))"
  by (simp add: provisional_starts_def)

lemma length_provisional_ends:
  "length (provisional_ends p srate) = Suc (length (large_gaps p srate))"
  by (simp add: provisional_ends_def)

subsection \<open>Provisional starts and ends are peaks\<close>

lemma peaks_bounds: "x \<in> set (peaks rmsdata) \<Longrightarrow> 0 \<le> x \<and> x < int (length rmsdata)"
  using find_peaks_bounds [of x rmsdata "std rmsdata * 5"] by (simp add: peaks_def)

lemma peaks_sorted: "sorted_wrt (<) (peaks rmsdata)"
  by (simp add: peaks_def find_peaks_sorted)

lemma provisional_starts_subset:
  assumes "p \<noteq> []"
  shows "set (provisional_starts p srate) \<subseteq> set p"
  using assms by (auto simp add: provisional_starts_def large_gaps_set)

lemma provisional_ends_subset:
  assumes "p \<noteq> []"
  shows "set (provisional_ends p srate) \<subseteq> set p"
  using assms by (auto simp add: provisional_ends_def large_gaps_set)

lemma long_burst_nth:
  assumes "long_burst rmsdata srate = Inr res" and "i < length res"
  shows "peaks rmsdata \<noteq> []"
    and "length res = Suc (length (large_gaps (peaks rmsdata) srate))"
    and "i < length (provisional_starts (peaks rmsdata) srate)"
    and "i < length (provisional_ends (peaks rmsdata) srate)"
    and "fst (res ! i) =
           refine_start rmsdata srate (std rmsdata) (provisional_starts (peaks rmsdata) srate ! i)"
    and "snd (res ! i) =
           refine_end rmsdata srate (std rmsdata) (provisional_ends (peaks rmsdata) srate ! i)"
proof -
  from assms(1) show ne: "peaks rmsdata \<noteq> []" using long_burst_Inr_iff by blast
  from long_burst_peaks [OF ne, of srate] assms(1)
  have res: "res = zip (map (refine_start rmsdata srate (std rmsdata))
                          (provisional_starts (peaks rmsdata) srate))
                       (map (refine_end rmsdata srate (std rmsdata))
                          (provisional_ends (peaks rmsdata) srate))"
    by simp
  then show len: "length res = Suc (length (large_gaps (peaks rmsdata) srate))"
    by (simp add: length_provisional_starts length_provisional_ends)
  from len assms(2) show i1: "i < length (provisional_starts (peaks rmsdata) srate)"
    by (simp add: length_provisional_starts)
  from len assms(2) show i2: "i < length (provisional_ends (peaks rmsdata) srate)"
    by (simp add: length_provisional_ends)
  from i1 i2 show "fst (res ! i) =
      refine_start rmsdata srate (std rmsdata) (provisional_starts (peaks rmsdata) srate ! i)"
    unfolding res by simp
  from i1 i2 show "snd (res ! i) =
      refine_end rmsdata srate (std rmsdata) (provisional_ends (peaks rmsdata) srate ! i)"
    unfolding res by simp
qed

lemma provisional_start_valid:
  assumes "peaks rmsdata \<noteq> []" and "i < length (provisional_starts (peaks rmsdata) srate)"
  shows "0 \<le> provisional_starts (peaks rmsdata) srate ! i \<and>
         provisional_starts (peaks rmsdata) srate ! i < int (length rmsdata)"
proof -
  from assms(2) have "provisional_starts (peaks rmsdata) srate ! i
      \<in> set (provisional_starts (peaks rmsdata) srate)" by simp
  with provisional_starts_subset [OF assms(1)] show ?thesis using peaks_bounds by blast
qed

lemma provisional_end_valid:
  assumes "peaks rmsdata \<noteq> []" and "i < length (provisional_ends (peaks rmsdata) srate)"
  shows "0 \<le> provisional_ends (peaks rmsdata) srate ! i \<and>
         provisional_ends (peaks rmsdata) srate ! i < int (length rmsdata)"
proof -
  from assms(2) have "provisional_ends (peaks rmsdata) srate ! i
      \<in> set (provisional_ends (peaks rmsdata) srate)" by simp
  with provisional_ends_subset [OF assms(1)] show ?thesis using peaks_bounds by blast
qed

subsection \<open>Neighbouring provisional starts are more than one second apart\<close>

lemma sorted_wrt_nth_le:
  fixes p :: "int list"
  assumes "sorted_wrt (<) p" and "j \<le> g" and "g < length p"
  shows "p ! j \<le> p ! g"
proof (cases "j = g")
  case True
  then show ?thesis by simp
next
  case False
  with assms(2) have "j < g" by simp
  from sorted_wrt_nth_less [OF assms(1) this assms(3)] show ?thesis by simp
qed

lemma provisional_starts_step:
  assumes sorted: "sorted_wrt (<) p" and i: "Suc i < length (provisional_starts p srate)"
  shows "srate < real_of_int (provisional_starts p srate ! Suc i - provisional_starts p srate ! i)"
    and "provisional_starts p srate ! i < provisional_starts p srate ! Suc i"
proof -
  define gs where "gs = large_gaps p srate"
  define g where "g = gs ! i"
  from i have ilt: "i < length gs" by (simp add: provisional_starts_def gs_def)
  then have "g \<in> set gs" by (simp add: g_def)
  then have g: "Suc g < length p" "srate < real_of_int (p ! Suc g - p ! g)"
    by (simp_all add: gs_def large_gaps_set)
  have next_start: "provisional_starts p srate ! Suc i = p ! Suc g"
    using ilt by (simp add: provisional_starts_def gs_def g_def)
  have "\<exists>j\<le>g. provisional_starts p srate ! i = p ! j"
  proof (cases i)
    case 0
    then show ?thesis by (auto simp add: provisional_starts_def)
  next
    case (Suc i')
    have "sorted_wrt (<) gs" unfolding gs_def by (rule large_gaps_sorted)
    from sorted_wrt_nth_less [OF this, of i' i] Suc ilt have "gs ! i' < g" by (simp add: g_def)
    moreover have "provisional_starts p srate ! i = p ! Suc (gs ! i')"
      using Suc ilt by (simp add: provisional_starts_def gs_def)
    ultimately show ?thesis by (intro exI [of _ "Suc (gs ! i')"]) simp
  qed
  then obtain j where j: "j \<le> g" "provisional_starts p srate ! i = p ! j" by blast
  from sorted_wrt_nth_le [OF sorted j(1)] g(1) have le: "p ! j \<le> p ! g" by simp
  from sorted_wrt_nth_less [OF sorted, of g "Suc g"] g(1) have lt: "p ! g < p ! Suc g" by simp
  from le g(2) show "srate < real_of_int (provisional_starts p srate ! Suc i - provisional_starts p srate ! i)"
    unfolding next_start j(2) by simp
  from le lt show "provisional_starts p srate ! i < provisional_starts p srate ! Suc i"
    unfolding next_start j(2) by simp
qed

lemma py_int_tenth_le:
  assumes "0 < py_int (0.100 * srate)"
  shows "real_of_int (py_int (0.100 * srate)) \<le> srate"
proof -
  have pos: "0 \<le> srate"
  proof (rule ccontr)
    assume "\<not> 0 \<le> srate"
    then have "0.100 * srate \<le> 0" by simp
    from py_int_nonpos [OF this] assms show False by simp
  qed
  then have "real_of_int (py_int (0.100 * srate)) \<le> 0.100 * srate"
    by (intro py_int_le) simp
  also from pos have "\<dots> \<le> srate" by simp
  finally show ?thesis .
qed

subsection \<open>The backward window near the front of the envelope\<close>

lemma refine_start_nonneg:
  assumes "0 \<le> x" and "x < int (length rmsdata)"
  shows "0 \<le> refine_start rmsdata srate lowthr x"
  using refine_start_cases [OF assms, of srate lowthr] assms(1) by auto

lemma slice_rev_wraps_empty:
  assumes "0 \<le> x" and "x < w" and "w \<le> int (length rmsdata)"
  shows "slice_rev rmsdata x (x - w) = []"
proof -
  from assms have "adjust_rev (int (length rmsdata)) x = x"
    by (intro adjust_rev_inside) simp_all
  moreover from assms have "adjust_rev (int (length rmsdata)) (x - w) = x - w + int (length rmsdata)"
    by (simp add: adjust_rev_def)
  ultimately have "length (slice_rev rmsdata x (x - w)) = 0"
    using assms by (simp add: length_slice_rev)
  then show ?thesis by simp
qed

subsection \<open>The forward window inside the envelope\<close>

lemma refine_end_found:
  assumes x: "0 \<le> x" and W: "0 \<le> py_int (0.250 * srate)"
    and inside: "x + py_int (0.250 * srate) < int (length rmsdata)"
    and k: "int k < py_int (0.250 * srate)"
    and above: "lowthr < rmsdata ! nat (x + py_int (0.250 * srate) - int k)"
    and first: "\<forall>j<k. \<not> lowthr < rmsdata ! nat (x + py_int (0.250 * srate) - int j)"
  shows "refine_end rmsdata srate lowthr x = x + (py_int (0.250 * srate) - int k)"
proof -
  define W where "W = py_int (0.250 * srate)"
  define tmp where "tmp = slice_rev rmsdata (x + W) x"
  from x W inside have hi: "adjust_rev (int (length rmsdata)) (x + W) = x + W"
    by (intro adjust_rev_inside) (simp_all add: W_def)
  from x W inside have lo: "adjust_rev (int (length rmsdata)) x = x"
    by (intro adjust_rev_inside) (simp_all add: W_def)
  have len: "length tmp = nat W" by (simp add: tmp_def length_slice_rev hi lo)
  have nth: "tmp ! j = rmsdata ! nat (x + W - int j)" if "j < nat W" for j
    using that len by (simp add: tmp_def nth_slice_rev hi)
  from k have klt: "k < length tmp" by (simp add: len W_def)
  moreover from above k have "lowthr < tmp ! k" by (simp add: nth W_def)
  moreover have "\<forall>j<k. \<not> lowthr < tmp ! j"
  proof (intro allI impI)
    fix j assume "j < k"
    with klt len have "j < nat W" by simp
    from nth [OF this] first \<open>j < k\<close> show "\<not> lowthr < tmp ! j" by (simp add: W_def)
  qed
  ultimately obtain ks where "np_where (\<lambda>v. lowthr < v) tmp = k # ks"
    using np_where_first [of k tmp "\<lambda>v. lowthr < v"] by blast
  then show ?thesis
    unfolding refine_end_def by (simp add: tmp_def W_def)
qed

lemma refine_end_not_found:
  assumes x: "0 \<le> x" and W: "0 \<le> py_int (0.250 * srate)"
    and inside: "x + py_int (0.250 * srate) < int (length rmsdata)"
    and none: "\<forall>j<nat (py_int (0.250 * srate)). \<not> lowthr < rmsdata ! nat (x + py_int (0.250 * srate) - int j)"
  shows "refine_end rmsdata srate lowthr x = x"
proof -
  define W where "W = py_int (0.250 * srate)"
  define tmp where "tmp = slice_rev rmsdata (x + W) x"
  from x W inside have hi: "adjust_rev (int (length rmsdata)) (x + W) = x + W"
    by (intro adjust_rev_inside) (simp_all add: W_def)
  from x W inside have lo: "adjust_rev (int (length rmsdata)) x = x"
    by (intro adjust_rev_inside) (simp_all add: W_def)
  have len: "length tmp = nat W" by (simp add: tmp_def length_slice_rev hi lo)
  have nth: "tmp ! j = rmsdata ! nat (x + W - int j)" if "j < nat W" for j
    using that len by (simp add: tmp_def nth_slice_rev hi)
  have "\<forall>j<length tmp. \<not> lowthr < tmp ! j"
    using none nth len by (simp add: W_def)
  then have "np_where (\<lambda>v. lowthr < v) tmp = []" by (simp add: np_where_Nil)
  then show ?thesis
    unfolding refine_end_def by (simp add: tmp_def W_def)
qed

subsection \<open>The groups of the specification and the index arrays of the code\<close>

lemma np_where_Cons_shift:
  "np_where c (d # ds) = (if c d then [0] else []) @ map Suc (np_where c ds)"
proof -
  have "[0..<length (d # ds)] = 0 # map Suc [0..<length ds]"
    by (simp add: upt_conv_Cons map_Suc_upt del: upt_Suc)
  then show ?thesis by (simp add: np_where_def filter_map comp_def)
qed

lemma np_diff_Cons2: "np_diff (a # b # ps) = (b - a) # np_diff (b # ps)"
proof -
  have "[0..<length (a # b # ps) - 1] = 0 # map Suc [0..<length (b # ps) - 1]"
    by (simp add: upt_conv_Cons map_Suc_upt del: upt_Suc)
  then show ?thesis by (simp add: np_diff_def comp_def)
qed

lemma large_gaps_Cons2:
  "large_gaps (a # b # ps) srate =
     (if 1 * srate < real_of_int (b - a) then [0] else []) @ map Suc (large_gaps (b # ps) srate)"
  unfolding large_gaps_def np_diff_Cons2 by (rule np_where_Cons_shift)

lemma large_gaps_single: "large_gaps [a] srate = []"
  by (simp add: large_gaps_def np_diff_def np_where_def)

lemma provisional_starts_Cons2:
  "provisional_starts (a # b # ps) srate =
     (if 1 * srate < real_of_int (b - a) then a # provisional_starts (b # ps) srate
      else a # tl (provisional_starts (b # ps) srate))"
  by (simp add: provisional_starts_def large_gaps_Cons2 comp_def)

lemma provisional_ends_Cons2:
  "provisional_ends (a # b # ps) srate =
     (if 1 * srate < real_of_int (b - a) then a # provisional_ends (b # ps) srate
      else provisional_ends (b # ps) srate)"
  by (simp add: provisional_ends_def large_gaps_Cons2 comp_def)

lemma peak_groups_nonempty: "p \<noteq> [] \<Longrightarrow> peak_groups srate p \<noteq> []"
  by (cases "(srate, p)" rule: peak_groups.cases) (auto split: list.splits)

lemma peak_groups_no_empty_group: "g \<in> set (peak_groups srate p) \<Longrightarrow> g \<noteq> []"
  by (induction srate p arbitrary: g rule: peak_groups.induct) (auto split: list.splits if_splits)

lemma concat_peak_groups: "concat (peak_groups srate p) = p"
proof (induction srate p rule: peak_groups.induct)
  case (1 srate)
  then show ?case by simp
next
  case (2 srate a)
  then show ?case by simp
next
  case (3 srate a b ps)
  then have IH: "concat (peak_groups srate (b # ps)) = b # ps"
    by (cases "1 * srate < real_of_int (b - a)") simp_all
  then show ?case by (cases "peak_groups srate (b # ps)") auto
qed

lemma hd_peak_groups: "p \<noteq> [] \<Longrightarrow> map hd (peak_groups srate p) = provisional_starts p srate"
proof (induction srate p rule: peak_groups.induct)
  case (1 srate)
  then show ?case by simp
next
  case (2 srate a)
  then show ?case by (simp add: provisional_starts_def large_gaps_single)
next
  case (3 srate a b ps)
  then have IH: "map hd (peak_groups srate (b # ps)) = provisional_starts (b # ps) srate"
    by (cases "1 * srate < real_of_int (b - a)") simp_all
  show ?case
  proof (cases "peak_groups srate (b # ps)")
    case Nil
    with peak_groups_nonempty [of "b # ps" srate] show ?thesis by simp
  next
    case (Cons g gs)
    with IH have whole: "hd g # map hd gs = provisional_starts (b # ps) srate" by simp
    then have rest: "map hd gs = tl (provisional_starts (b # ps) srate)"
      by (metis list.sel(3))
    from Cons whole rest show ?thesis by (simp add: provisional_starts_Cons2)
  qed
qed

lemma last_peak_groups: "p \<noteq> [] \<Longrightarrow> map last (peak_groups srate p) = provisional_ends p srate"
proof (induction srate p rule: peak_groups.induct)
  case (1 srate)
  then show ?case by simp
next
  case (2 srate a)
  then show ?case by (simp add: provisional_ends_def large_gaps_single)
next
  case (3 srate a b ps)
  then have IH: "map last (peak_groups srate (b # ps)) = provisional_ends (b # ps) srate"
    by (cases "1 * srate < real_of_int (b - a)") simp_all
  show ?case
  proof (cases "peak_groups srate (b # ps)")
    case Nil
    with peak_groups_nonempty [of "b # ps" srate] show ?thesis by simp
  next
    case (Cons g gs)
    then have "g \<in> set (peak_groups srate (b # ps))" by simp
    then have "g \<noteq> []" by (rule peak_groups_no_empty_group)
    with Cons IH show ?thesis by (auto simp add: provisional_ends_Cons2)
  qed
qed

lemma large_gaps_card:
  "length (large_gaps p srate) =
     card {i. Suc i < length p \<and> 1 * srate < real_of_int (p ! Suc i - p ! i)}"
proof -
  have "card (set (large_gaps p srate)) = length (large_gaps p srate)"
    by (rule distinct_card) (rule large_gaps_distinct)
  then show ?thesis by (simp add: large_gaps_set)
qed

subsection \<open>The sample envelope, evaluated\<close>

lemma sqrt_169: "sqrt 169 = 13"
proof -
  have "sqrt (13 ^ 2) = (13::real)" by simp
  then show ?thesis by simp
qed

lemma example_envelope_length: "length example_envelope = 54"
  by (simp add: example_envelope_def)

lemma example_envelope_std: "std example_envelope = 13"
proof -
  have m: "mean example_envelope = 3"
    by (simp add: example_envelope_def mean_def sum_list_replicate)
  have "mean (map (\<lambda>v. \<bar>v - mean example_envelope\<bar> ^ 2) example_envelope) = 169"
    unfolding m by (simp add: example_envelope_def mean_def sum_list_replicate)
  then show ?thesis by (simp add: std_def sqrt_169)
qed

lemma example_envelope_peaks: "peaks example_envelope = [1, 51]"
proof -
  have "find_peaks example_envelope 65 = [1, 51]"
    unfolding example_envelope_def by code_simp
  then show ?thesis by (simp add: peaks_def example_envelope_std)
qed

lemma example_envelope_bursts: "long_burst example_envelope 20 = Inr [(1, 1), (50, 55)]"
proof -
  have "bursts_of_peaks example_envelope 20 13 [1, 51] = Inr [(1, 1), (50, 55)]"
    unfolding example_envelope_def by code_simp
  then show ?thesis
    using example_envelope_peaks by (simp add: long_burst_def peaks_def example_envelope_std)
qed

lemma example_envelope_provisional:
  "provisional_starts [1, 51] 20 = [1, 51] \<and> provisional_ends [1, 51] 20 = [1, 51]"
  by code_simp

lemma example_windows: "py_int (0.100 * 20) = 2 \<and> py_int (0.250 * 20) = 5"
  by (simp add: py_int_def)

lemma shoulder_envelope_length: "length shoulder_envelope = 54"
  by (simp add: shoulder_envelope_def)

lemma shoulder_envelope_std: "std shoulder_envelope = 13"
proof -
  have m: "mean shoulder_envelope = 3"
    by (simp add: shoulder_envelope_def mean_def sum_list_replicate)
  have "mean (map (\<lambda>v. \<bar>v - mean shoulder_envelope\<bar> ^ 2) shoulder_envelope) = 169"
    unfolding m by (simp add: shoulder_envelope_def mean_def sum_list_replicate)
  then show ?thesis by (simp add: std_def sqrt_169)
qed

lemma shoulder_envelope_peaks: "peaks shoulder_envelope = [1, 51]"
proof -
  have "find_peaks shoulder_envelope 65 = [1, 51]"
    unfolding shoulder_envelope_def by code_simp
  then show ?thesis by (simp add: peaks_def shoulder_envelope_std)
qed

lemma shoulder_envelope_bursts: "long_burst shoulder_envelope 20 = Inr [(1, 2), (50, 51)]"
proof -
  have "bursts_of_peaks shoulder_envelope 20 13 [1, 51] = Inr [(1, 2), (50, 51)]"
    unfolding shoulder_envelope_def by code_simp
  then show ?thesis
    using shoulder_envelope_peaks by (simp add: long_burst_def peaks_def shoulder_envelope_std)
qed

lemma shoulder_envelope_window:
  "slice_rev shoulder_envelope (1 + py_int (0.250 * 20)) 1 = [0, 0, 0, 0, 30]"
  unfolding shoulder_envelope_def by code_simp

lemma shoulder_envelope_zero: "3 \<le> m \<Longrightarrow> m < 51 \<Longrightarrow> shoulder_envelope ! m = 0"
  by (simp add: shoulder_envelope_def nth_Cons' nth_append)

lemma example_envelope_zero: "2 \<le> m \<Longrightarrow> m < 51 \<Longrightarrow> example_envelope ! m = 0"
  by (simp add: example_envelope_def nth_Cons' nth_append)

lemma shoulder_envelope_2: "shoulder_envelope ! 2 = 30"
  by (simp add: shoulder_envelope_def)

subsection \<open>Rounding to double precision\<close>

text \<open>
  The error of one rounding: at most half a unit in the last place, which for a number in
  the normal range is at most the fraction \<open>2 powr (- 53)\<close> of the number. The window
  length is computed with three divisions and one rounded literal, so the double
  \<^verbatim>\<open>mysegment\<close> is within the fraction \<open>2 powr (- 50)\<close> of the exact
  \<open>0.005 * (srate / 60)\<close>.
\<close>

lemma round_even_error: "\<bar>real_of_int (round_even r) - r\<bar> \<le> 1 / 2"
  unfolding round_even_def Let_def by (auto simp: abs_if) linarith+

lemma round_even_of_int: "round_even (real_of_int k) = k"
  by (simp add: round_even_def)

lemma float_ulp_pos: "0 < float_ulp x"
  by (simp add: float_ulp_def)

lemma fl_abs_error: "\<bar>fl x - x\<bar> \<le> float_ulp x / 2"
proof (cases "x = 0")
  case True
  then show ?thesis using float_ulp_pos [of x] by (simp add: fl_def)
next
  case False
  define u where "u = float_ulp x"
  have u: "0 < u" unfolding u_def by (rule float_ulp_pos)
  have "fl x - x = (real_of_int (round_even (x / u)) - x / u) * u"
    using False u by (simp add: fl_def u_def field_simps)
  then have "\<bar>fl x - x\<bar> = \<bar>real_of_int (round_even (x / u)) - x / u\<bar> * u"
    using u by (simp add: abs_mult)
  also have "\<dots> \<le> (1 / 2) * u"
    using round_even_error [of "x / u"] u by (intro mult_right_mono) simp_all
  finally show ?thesis by (simp add: u_def)
qed

lemma float_exp_normal:
  assumes "2 powr (- 1022) \<le> \<bar>x\<bar>"
  shows "float_exp x = \<lfloor>log 2 \<bar>x\<bar>\<rfloor>" and "2 powr real_of_int (float_exp x) \<le> \<bar>x\<bar>"
proof -
  have pos: "0 < \<bar>x\<bar>" using assms by (smt (verit) powr_gt_zero)
  from assms pos have "- 1022 \<le> log 2 \<bar>x\<bar>" by (simp add: le_log_iff)
  then have "- 1022 \<le> \<lfloor>log 2 \<bar>x\<bar>\<rfloor>" by (simp add: le_floor_iff)
  then show e: "float_exp x = \<lfloor>log 2 \<bar>x\<bar>\<rfloor>" by (simp add: float_exp_def)
  have "real_of_int \<lfloor>log 2 \<bar>x\<bar>\<rfloor> \<le> log 2 \<bar>x\<bar>" by simp
  then have "2 powr real_of_int \<lfloor>log 2 \<bar>x\<bar>\<rfloor> \<le> 2 powr log 2 \<bar>x\<bar>"
    by (simp only: powr_le_cancel_iff)
  with pos show "2 powr real_of_int (float_exp x) \<le> \<bar>x\<bar>" unfolding e by simp
qed

lemma fl_rel_error:
  assumes "2 powr (- 1022) \<le> \<bar>x\<bar>"
  shows "\<bar>fl x - x\<bar> \<le> \<bar>x\<bar> / 2 ^ 53"
proof -
  have "float_ulp x = 2 powr real_of_int (float_exp x) / 2 ^ 52"
    by (simp add: float_ulp_def powr_diff)
  with float_exp_normal(2) [OF assms] have "float_ulp x \<le> \<bar>x\<bar> / 2 ^ 52"
    by (simp add: divide_right_mono)
  with fl_abs_error [of x] show ?thesis by simp
qed

lemma fl_eval_normal:
  assumes "2 powr real_of_int e \<le> \<bar>x\<bar>" and "\<bar>x\<bar> < 2 powr real_of_int (e + 1)" and "- 1022 \<le> e"
  shows "fl x = real_of_int (round_even (x / 2 powr real_of_int (e - 52))) * 2 powr real_of_int (e - 52)"
proof -
  have pos: "0 < \<bar>x\<bar>" using assms(1) by (smt (verit) powr_gt_zero)
  from pos assms(1,2) have "\<lfloor>log 2 \<bar>x\<bar>\<rfloor> = e"
    by (subst floor_log_eq_powr_iff) simp_all
  with assms(3) have "float_exp x = e" by (simp add: float_exp_def)
  with pos show ?thesis by (simp add: fl_def float_ulp_def)
qed

lemma fl_eval_subnormal:
  assumes "\<bar>x\<bar> < 2 powr (- 1022)"
  shows "fl x = real_of_int (round_even (x * 2 ^ 1074)) / 2 ^ 1074"
proof (cases "x = 0")
  case True
  then show ?thesis by (simp add: fl_def round_even_def)
next
  case False
  then have pos: "0 < \<bar>x\<bar>" by simp
  from assms pos have "log 2 \<bar>x\<bar> < - 1022" by (simp add: log_less_iff)
  then have "\<lfloor>log 2 \<bar>x\<bar>\<rfloor> < - 1022" by (simp add: floor_less_iff)
  then have "float_exp x = - 1022" by (simp add: float_exp_def)
  define P where "P = (2::real) ^ 1074"
  from \<open>float_exp x = - 1022\<close> have "float_ulp x = 1 / P"
    by (simp add: float_ulp_def powr_neg_numeral P_def)
  with False have "fl x = real_of_int (round_even (x / (1 / P))) * (1 / P)"
    by (simp only: fl_def if_False)
  then have "fl x = real_of_int (round_even (x * P)) / P" by simp
  then show ?thesis unfolding P_def .
qed

lemma fl_factor:
  assumes "0 < x" and "2 powr (- 1022) \<le> x"
  shows "\<exists>\<alpha>. fl x = x * \<alpha> \<and> 1 - 1 / 2 ^ 53 \<le> \<alpha> \<and> \<alpha> \<le> 1 + 1 / 2 ^ 53"
proof -
  from assms have "\<bar>fl x - x\<bar> \<le> x / 2 ^ 53" using fl_rel_error [of x] by simp
  then have lo: "x - x / 2 ^ 53 \<le> fl x" and hi: "fl x \<le> x + x / 2 ^ 53" by linarith+
  define \<alpha> where "\<alpha> = fl x / x"
  from assms(1) have "fl x = x * \<alpha>" by (simp add: \<alpha>_def)
  moreover from lo assms(1) have "1 - 1 / 2 ^ 53 \<le> \<alpha>"
    unfolding \<alpha>_def by (simp only: pos_le_divide_eq) (simp add: field_simps)
  moreover from hi assms(1) have "\<alpha> \<le> 1 + 1 / 2 ^ 53"
    unfolding \<alpha>_def by (simp only: pos_divide_le_eq) (simp add: field_simps)
  ultimately show ?thesis by blast
qed

lemma four_factors:
  fixes lo hi :: real
  assumes "0 < lo" and "lo \<le> hi"
    and a: "lo \<le> \<alpha>" "\<alpha> \<le> hi" and b: "lo \<le> \<beta>" "\<beta> \<le> hi"
    and c: "lo \<le> \<gamma>" "\<gamma> \<le> hi" and d: "lo \<le> \<delta>" "\<delta> \<le> hi"
  shows "lo ^ 3 / hi \<le> \<gamma> * \<alpha> * \<delta> / \<beta>" and "\<gamma> * \<alpha> * \<delta> / \<beta> \<le> hi ^ 3 / lo"
proof -
  have pos: "0 < \<alpha>" "0 < \<beta>" "0 < \<gamma>" "0 < \<delta>" "0 < hi" using assms by linarith+
  have "lo * lo \<le> \<gamma> * \<alpha>" using assms by (intro mult_mono) simp_all
  then have "lo * lo * lo \<le> \<gamma> * \<alpha> * \<delta>" using assms by (intro mult_mono) simp_all
  then have l3: "lo ^ 3 \<le> \<gamma> * \<alpha> * \<delta>" by (simp add: power3_eq_cube)
  have "\<gamma> * \<alpha> \<le> hi * hi" using assms pos by (intro mult_mono) simp_all
  then have "\<gamma> * \<alpha> * \<delta> \<le> hi * hi * hi" using assms pos by (intro mult_mono) simp_all
  then have h3: "\<gamma> * \<alpha> * \<delta> \<le> hi ^ 3" by (simp add: power3_eq_cube)
  from l3 assms pos show "lo ^ 3 / hi \<le> \<gamma> * \<alpha> * \<delta> / \<beta>" by (intro frac_le) simp_all
  from h3 assms pos show "\<gamma> * \<alpha> * \<delta> / \<beta> \<le> hi ^ 3 / lo" by (intro frac_le) simp_all
qed

lemma unit_roundoff_bounds:
  "1 - 1 / 2 ^ 50 \<le> (1 - 1 / 2 ^ 53) ^ 3 / (1 + 1 / 2 ^ 53 :: real)"
  "(1 + 1 / 2 ^ 53) ^ 3 / (1 - 1 / 2 ^ 53) \<le> (1 + 1 / 2 ^ 50 :: real)"
  by (simp_all add: field_simps)


lemma tiny_powr: "2 powr (- 1022) \<le> (1 / 10 ^ 40 :: real)"
proof -
  have "(10::real) ^ 40 \<le> 2 ^ 1022" by simp
  then have "1 / (2::real) ^ 1022 \<le> 1 / 10 ^ 40" by (intro frac_le) simp_all
  then show ?thesis by (simp only: powr_neg_numeral [of 2] zero_less_numeral)
qed

lemma above_tiny:
  fixes x :: real
  assumes "c \<le> x" and "1 / 10 ^ 21 \<le> c"
  shows "2 powr (- 1022) \<le> x"
proof -
  have "(1 / 10 ^ 40 :: real) \<le> 1 / 10 ^ 21" by simp
  from tiny_powr this have "2 powr (- 1022) \<le> (1 / 10 ^ 21 :: real)" by (rule order_trans)
  from this assms(2) have "2 powr (- 1022) \<le> c" by (rule order_trans)
  from this assms(1) show ?thesis by (rule order_trans)
qed

lemma rms_segment_near_exact:
  assumes lo: "1 / 10 ^ 15 \<le> srate" and hi: "srate \<le> 10 ^ 15"
  shows "\<exists>v. rms_segment srate = Inr \<lfloor>v\<rfloor> \<and>
             0.005 * (srate / 60) * (1 - 1 / 2 ^ 50) \<le> v \<and>
             v \<le> 0.005 * (srate / 60) * (1 + 1 / 2 ^ 50)"
proof -
  define L :: real where "L = 1 - 1 / 2 ^ 53"
  define H :: real where "H = 1 + 1 / 2 ^ 53"
  have LH: "0 < L" "L \<le> H" "1 / 2 \<le> L" "H \<le> 2" by (simp_all add: L_def H_def)
  define a where "a = srate / 60"
  from lo hi have a: "1 / 10 ^ 17 \<le> a" "a \<le> 10 ^ 15" "0 < a" by (simp_all add: a_def)
  define m where "m = fl a"
  from a(1) have "2 powr (- 1022) \<le> a" by (rule above_tiny) simp
  from fl_factor [OF a(3) this] obtain \<alpha> where \<alpha>: "m = a * \<alpha>" "L \<le> \<alpha>" "\<alpha> \<le> H"
    unfolding m_def L_def H_def by blast
  from \<alpha> LH have \<alpha>_pos: "0 < \<alpha>" by linarith
  from \<alpha>(1) a(3) \<alpha>_pos have m_pos: "0 < m" by simp
  have "a * \<alpha> \<le> 10 ^ 15 * 2" using a \<alpha> LH \<alpha>_pos by (intro mult_mono) simp_all
  then have m_hi: "m \<le> 2 * 10 ^ 15" by (simp add: \<alpha>(1))
  have "1 / 10 ^ 17 * (1 / 2) \<le> a * \<alpha>" using a \<alpha> LH by (intro mult_mono) simp_all
  then have m_lo: "1 / (2 * 10 ^ 17) \<le> m" by (simp add: \<alpha>(1))
  have m_fin: "\<not> 2 ^ 1024 \<le> \<bar>m\<bar>" using m_hi m_pos by simp
  define b where "b = 1 / m"
  define d where "d = fl b"
  from m_pos have b_pos: "0 < b" by (simp add: b_def)
  from m_hi m_pos have b_lo: "1 / (2 * 10 ^ 15) \<le> b" unfolding b_def by (intro frac_le) simp_all
  from m_lo m_pos have b_hi: "b \<le> 2 * 10 ^ 17"
    unfolding b_def by (simp add: field_simps)
  from b_lo have "2 powr (- 1022) \<le> b" by (rule above_tiny) simp
  from fl_factor [OF b_pos this] obtain \<beta> where \<beta>: "d = b * \<beta>" "L \<le> \<beta>" "\<beta> \<le> H"
    unfolding d_def L_def H_def by blast
  from \<beta> LH have \<beta>_pos: "0 < \<beta>" by linarith
  from \<beta>(1) b_pos \<beta>_pos have d_pos: "0 < d" by simp
  have "b * \<beta> \<le> 2 * 10 ^ 17 * 2" using b_hi b_pos \<beta> LH \<beta>_pos by (intro mult_mono) simp_all
  then have "d \<le> 4 * 10 ^ 17" by (simp add: \<beta>(1))
  then have d_fin: "\<not> 2 ^ 1024 \<le> \<bar>d\<bar>" using d_pos by simp
  define c where "c = fl 0.005"
  have "2 powr (- 1022) \<le> (0.005 :: real)" by (rule above_tiny [OF order_refl]) simp
  from fl_factor [OF _ this] obtain \<gamma> where \<gamma>: "c = 0.005 * \<gamma>" "L \<le> \<gamma>" "\<gamma> \<le> H"
    unfolding c_def L_def H_def by auto
  from \<gamma> LH have \<gamma>_pos: "0 < \<gamma>" by linarith
  define t where "t = 0.005 * a"
  from a have t_pos: "0 < t" and t_lo: "1 / 10 ^ 20 \<le> t" by (simp_all add: t_def)
  define q where "q = c / d"
  have q_eq: "q = t * (\<gamma> * \<alpha> / \<beta>)"
    using m_pos b_pos \<beta>_pos by (simp add: q_def \<gamma>(1) \<beta>(1) b_def \<alpha>(1) t_def field_simps)
  have "(1 / 2) * (1 / 2) \<le> \<gamma> * \<alpha>" using \<gamma> \<alpha> LH by (intro mult_mono) simp_all
  then have "(1 / 2) * (1 / 2) / 2 \<le> \<gamma> * \<alpha> / \<beta>"
    using \<beta> LH \<beta>_pos by (intro frac_le) simp_all
  then have ratio_lo: "1 / 8 \<le> \<gamma> * \<alpha> / \<beta>" by simp
  have "1 / 10 ^ 20 * (1 / 8) \<le> t * (\<gamma> * \<alpha> / \<beta>)"
    using t_lo ratio_lo by (intro mult_mono) simp_all
  then have q_lo: "1 / (8 * 10 ^ 20) \<le> q" by (simp add: q_eq)
  then have q_pos: "0 < q" by (smt (verit) zero_less_divide_1_iff zero_less_numeral zero_less_mult_iff zero_less_power)
  from q_lo have "2 powr (- 1022) \<le> q" by (rule above_tiny) simp
  define v where "v = fl q"
  from fl_factor [OF q_pos \<open>2 powr (- 1022) \<le> q\<close>]
  obtain \<delta> where \<delta>: "v = q * \<delta>" "L \<le> \<delta>" "\<delta> \<le> H"
    unfolding v_def L_def H_def by blast
  have v_eq: "v = t * (\<gamma> * \<alpha> * \<delta> / \<beta>)" by (simp add: \<delta>(1) q_eq)
  note ff = four_factors [OF LH(1,2) \<alpha>(2,3) \<beta>(2,3) \<gamma>(2,3) \<delta>(2,3)]
  from ff(1) unit_roundoff_bounds(1) have r_lo: "1 - 1 / 2 ^ 50 \<le> \<gamma> * \<alpha> * \<delta> / \<beta>"
    unfolding L_def H_def by linarith
  from ff(2) unit_roundoff_bounds(2) have r_hi: "\<gamma> * \<alpha> * \<delta> / \<beta> \<le> 1 + 1 / 2 ^ 50"
    unfolding L_def H_def by linarith
  from r_lo t_pos have v_lo: "t * (1 - 1 / 2 ^ 50) \<le> v"
    unfolding v_eq by (intro mult_left_mono) simp_all
  from r_hi t_pos have v_hi: "v \<le> t * (1 + 1 / 2 ^ 50)"
    unfolding v_eq by (intro mult_left_mono) simp_all
  have "0 \<le> t * (1 - 1 / 2 ^ 50)" using t_pos by simp
  with v_lo have v_nonneg: "0 \<le> v" by linarith
  have "rms_segment srate = Inr (py_int v)"
    using m_fin m_pos d_fin unfolding v_def q_def c_def d_def b_def m_def a_def
    by (simp add: rms_segment_def Let_def)
  with v_nonneg have "rms_segment srate = Inr \<lfloor>v\<rfloor>" by (simp add: py_int_def)
  with v_lo v_hi show ?thesis unfolding t_def a_def by blast
qed

lemma fl_value:
  assumes "- 1022 \<le> e" and "2 powr real_of_int e \<le> \<bar>x\<bar>" and "\<bar>x\<bar> < 2 powr real_of_int (e + 1)"
    and "round_even (x / 2 powr real_of_int (e - 52)) = k"
  shows "fl x = real_of_int k * 2 powr real_of_int (e - 52)"
  using fl_eval_normal [OF assms(2,3,1)] assms(4) by simp

lemma fl_of_int_value:
  assumes "- 1022 \<le> e" and "2 powr real_of_int e \<le> \<bar>x\<bar>" and "\<bar>x\<bar> < 2 powr real_of_int (e + 1)"
    and "x / 2 powr real_of_int (e - 52) = real_of_int k"
  shows "fl x = x"
proof -
  from assms(4) have "round_even (x / 2 powr real_of_int (e - 52)) = k"
    by (simp add: round_even_of_int)
  from fl_value [OF assms(1-3) this] assms(4) show ?thesis by (simp add: field_simps)
qed

lemma rms_segment_floor:
  assumes "1 / 10 ^ 15 \<le> srate" and "srate \<le> 10 ^ 15"
    and "\<lfloor>0.005 * (srate / 60) * (1 - 1 / 2 ^ 50)\<rfloor> = \<lfloor>0.005 * (srate / 60) * (1 + 1 / 2 ^ 50)\<rfloor>"
  shows "rms_segment srate = Inr \<lfloor>0.005 * (srate / 60)\<rfloor>"
proof -
  define t where "t = 0.005 * (srate / 60)"
  from rms_segment_near_exact [OF assms(1,2)] obtain v
    where v: "rms_segment srate = Inr \<lfloor>v\<rfloor>" "t * (1 - 1 / 2 ^ 50) \<le> v" "v \<le> t * (1 + 1 / 2 ^ 50)"
    unfolding t_def by blast
  from assms(1) have "0 \<le> t" by (simp add: t_def)
  then have "t * (1 - 1 / 2 ^ 50) \<le> t * 1" by (intro mult_left_mono) simp_all
  then have t_lo: "t * (1 - 1 / 2 ^ 50) \<le> t" by simp
  from \<open>0 \<le> t\<close> have "t * 1 \<le> t * (1 + 1 / 2 ^ 50)" by (intro mult_left_mono) simp_all
  then have t_hi: "t \<le> t * (1 + 1 / 2 ^ 50)" by simp
  from assms(3) have same: "\<lfloor>t * (1 - 1 / 2 ^ 50)\<rfloor> = \<lfloor>t * (1 + 1 / 2 ^ 50)\<rfloor>" by (simp add: t_def)
  from v(2) have "\<lfloor>t * (1 - 1 / 2 ^ 50)\<rfloor> \<le> \<lfloor>v\<rfloor>" by (rule floor_mono)
  moreover from v(3) have "\<lfloor>v\<rfloor> \<le> \<lfloor>t * (1 + 1 / 2 ^ 50)\<rfloor>" by (rule floor_mono)
  moreover from t_lo have "\<lfloor>t * (1 - 1 / 2 ^ 50)\<rfloor> \<le> \<lfloor>t\<rfloor>" by (rule floor_mono)
  moreover from t_hi have "\<lfloor>t\<rfloor> \<le> \<lfloor>t * (1 + 1 / 2 ^ 50)\<rfloor>" by (rule floor_mono)
  ultimately have "\<lfloor>v\<rfloor> = \<lfloor>t\<rfloor>" using same by linarith
  with v(1) show ?thesis by (simp add: t_def)
qed

subsection \<open>The window length at some rates\<close>

text \<open>
  At the rates 1500000 and 3000000 the exact product is 125 and 250, but the doubles are
  124.99999999999999 and 249.99999999999997: the code passes 124 and 249. The smallest
  positive double, \<open>2 powr (- 1074)\<close>, divided by 60 rounds to zero, and line 44 raises.
\<close>

lemma fl_literal: "fl 0.005 = 5764607523034235 / 2 ^ 60"
proof -
  have "fl 0.005 = real_of_int 5764607523034235 * 2 powr real_of_int (- 8 - 52)"
    by (rule fl_value) (simp_all add: round_even_def powr_neg_numeral Let_def)
  also have "\<dots> = 5764607523034235 / 2 ^ 60" by (simp add: powr_neg_numeral)
  finally show ?thesis .
qed

lemma fl_25000: "fl 25000 = 25000"
  by (rule fl_of_int_value [where e = 14 and k = 6871947673600000]) (simp_all add: powr_neg_numeral)

lemma fl_inv_25000: "fl (1 / 25000) = 5902958103587057 / 2 ^ 67"
proof -
  have "fl (1 / 25000) = real_of_int 5902958103587057 * 2 powr real_of_int (- 15 - 52)"
    by (rule fl_value) (simp_all add: round_even_def powr_neg_numeral Let_def)
  also have "\<dots> = 5902958103587057 / 2 ^ 67" by (simp add: powr_neg_numeral)
  finally show ?thesis .
qed

lemma rms_segment_1500000: "rms_segment 1500000 = Inr 124"
proof -
  have m: "fl (1500000 / 60) = 25000"
  proof -
    have "(1500000 / 60 :: real) = 25000" by simp
    then show ?thesis by (simp only: fl_25000)
  qed
  have v: "fl (5764607523034235 / 2 ^ 60 / (5902958103587057 / 2 ^ 67)) = 8796093022207999 / 2 ^ 46"
  proof -
    have "fl (5764607523034235 / 2 ^ 60 / (5902958103587057 / 2 ^ 67))
        = real_of_int 8796093022207999 * 2 powr real_of_int (6 - 52)"
      by (rule fl_value) (simp_all add: round_even_def powr_neg_numeral Let_def)
    also have "\<dots> = 8796093022207999 / 2 ^ 46" by (simp add: powr_neg_numeral)
    finally show ?thesis .
  qed
  have "rms_segment 1500000 = Inr (py_int (8796093022207999 / 2 ^ 46))"
    unfolding rms_segment_def Let_def m fl_inv_25000 fl_literal v by simp
  also have "py_int (8796093022207999 / 2 ^ 46) = 124" by (simp add: py_int_def)
  finally show ?thesis .
qed

lemma fl_50000: "fl 50000 = 50000"
  by (rule fl_of_int_value [where e = 15 and k = 6871947673600000]) (simp_all add: powr_neg_numeral)

lemma fl_inv_50000: "fl (1 / 50000) = 5902958103587057 / 2 ^ 68"
proof -
  have "fl (1 / 50000) = real_of_int 5902958103587057 * 2 powr real_of_int (- 16 - 52)"
    by (rule fl_value) (simp_all add: round_even_def powr_neg_numeral Let_def)
  also have "\<dots> = 5902958103587057 / 2 ^ 68" by (simp add: powr_neg_numeral)
  finally show ?thesis .
qed

lemma rms_segment_3000000: "rms_segment 3000000 = Inr 249"
proof -
  have m: "fl (3000000 / 60) = 50000"
  proof -
    have "(3000000 / 60 :: real) = 50000" by simp
    then show ?thesis by (simp only: fl_50000)
  qed
  have v: "fl (5764607523034235 / 2 ^ 60 / (5902958103587057 / 2 ^ 68)) = 8796093022207999 / 2 ^ 45"
  proof -
    have "fl (5764607523034235 / 2 ^ 60 / (5902958103587057 / 2 ^ 68))
        = real_of_int 8796093022207999 * 2 powr real_of_int (7 - 52)"
      by (rule fl_value) (simp_all add: round_even_def powr_neg_numeral Let_def)
    also have "\<dots> = 8796093022207999 / 2 ^ 45" by (simp add: powr_neg_numeral)
    finally show ?thesis .
  qed
  have "rms_segment 3000000 = Inr (py_int (8796093022207999 / 2 ^ 45))"
    unfolding rms_segment_def Let_def m fl_inv_50000 fl_literal v by simp
  also have "py_int (8796093022207999 / 2 ^ 45) = 249" by (simp add: py_int_def)
  finally show ?thesis .
qed

lemma rms_segment_zero: "rms_segment 0 = Inl ZeroDivisionError"
  by (simp add: rms_segment_def fl_def)

lemma rms_segment_smallest_double: "rms_segment (1 / 2 ^ 1074) = Inl ZeroDivisionError"
proof -
  have small: "\<bar>1 / 2 ^ 1074 / 60 :: real\<bar> < 2 powr (- 1022)"
    by (simp add: powr_neg_numeral)
  have "round_even (1 / 2 ^ 1074 / 60 * 2 ^ 1074) = 0"
    by (simp add: round_even_def Let_def)
  with fl_eval_subnormal [OF small] have "fl (1 / 2 ^ 1074 / 60) = 0" by simp
  then show ?thesis unfolding rms_segment_def Let_def by simp
qed

lemma fl_20: "fl 20 = 20"
  by (rule fl_of_int_value [where e = 4 and k = 5629499534213120]) (simp_all add: powr_neg_numeral)

lemma fl_minus_20: "fl (- 20) = - 20"
  by (rule fl_of_int_value [where e = 4 and k = "- 5629499534213120"]) (simp_all add: powr_neg_numeral)

lemma rms_segment_1200: "rms_segment 1200 = Inr 0"
proof -
  have "rms_segment 1200 = Inr \<lfloor>0.005 * (1200 / 60) :: real\<rfloor>"
    by (rule rms_segment_floor) simp_all
  then show ?thesis by simp
qed

lemma rms_segment_minus_1200: "rms_segment (- 1200) = Inr 0"
proof -
  have m: "fl (- 1200 / 60) = - 20"
  proof -
    have "(- 1200 / 60 :: real) = - 20" by simp
    then show ?thesis by (simp only: fl_minus_20)
  qed
  have d: "fl (1 / - 20) = - (7205759403792794 / 2 ^ 57)"
  proof -
    have "fl (1 / - 20) = real_of_int (- 7205759403792794) * 2 powr real_of_int (- 5 - 52)"
      by (rule fl_value) (simp_all add: round_even_def powr_neg_numeral Let_def)
    also have "\<dots> = - (7205759403792794 / 2 ^ 57)" by (simp add: powr_neg_numeral)
    finally show ?thesis .
  qed
  have v: "fl (5764607523034235 / 2 ^ 60 / - (7205759403792794 / 2 ^ 57)) = - (7205759403792793 / 2 ^ 56)"
  proof -
    have "fl (5764607523034235 / 2 ^ 60 / - (7205759403792794 / 2 ^ 57))
        = real_of_int (- 7205759403792793) * 2 powr real_of_int (- 4 - 52)"
      by (rule fl_value) (simp_all add: round_even_def powr_neg_numeral Let_def)
    also have "\<dots> = - (7205759403792793 / 2 ^ 56)" by (simp add: powr_neg_numeral)
    finally show ?thesis .
  qed
  have "rms_segment (- 1200) = Inr (py_int (- (7205759403792793 / 2 ^ 56)))"
    unfolding rms_segment_def Let_def m d fl_literal v by simp
  also have "py_int (- (7205759403792793 / 2 ^ 56)) = 0"
  proof -
    have "\<lceil>- (7205759403792793 / 2 ^ 56) :: real\<rceil> = 0" by (rule ceiling_unique) simp_all
    then show ?thesis by (simp add: py_int_def)
  qed
  finally show ?thesis .
qed

subsection \<open>Constructing an object keeps the objects of the store\<close>

lemma new_Burst_frame:
  assumes "new_Burst lib data srate st = Inr (a, st')"
  shows "a = length st" and "length st' = Suc (length st)"
    and "\<And>self. self < length st \<Longrightarrow> st' ! self = st ! self"
    and "Burst_init lib data srate = Inr (st' ! a)"
  using assms by (auto simp add: new_Burst_def nth_append split: sum.splits)

lemma calls_through_frame:
  "self < length st \<Longrightarrow>
   length st \<le> length (calls_through lib self cs st) \<and> calls_through lib self cs st ! self = st ! self"
proof (induction cs arbitrary: st)
  case Nil
  then show ?case by simp
next
  case (Cons c cs)
  obtain data srate where c: "c = (data, srate)" by (cases c)
  show ?case
  proof (cases "Burst_call lib self data srate st")
    case (Inl e)
    with Cons c show ?thesis by simp
  next
    case (Inr r)
    obtain a st' where r: "r = (a, st')" by (cases r)
    from Inr r have n: "new_Burst lib data srate st = Inr (a, st')" by (simp add: Burst_call_def)
    from new_Burst_frame(2) [OF n] Cons.prems have lt: "self < length st'" by simp
    from Cons.IH [OF lt] new_Burst_frame(2,3) [OF n] Cons.prems
    have "length st \<le> length (calls_through lib self cs st') \<and>
          calls_through lib self cs st' ! self = st ! self" by simp
    with Inr r c show ?thesis by simp
  qed
qed

lemma passthrough_init:
  "Burst_init passthrough_lfp (Some example_envelope) 1200 = Inr \<lparr>idx = [(1, 1), (50, 55)]\<rparr>"
proof -
  have "fl (1200 / 60) = 20"
  proof -
    have "(1200 / 60 :: real) = 20" by simp
    then show ?thesis by (simp only: fl_20)
  qed
  then have "long_burst example_envelope (fl (1200 / 60)) = Inr [(1, 1), (50, 55)]"
    by (simp only: example_envelope_bursts)
  then show ?thesis
    unfolding Burst_init_def by (simp add: passthrough_lfp_def rms_segment_1200)
qed

subsection \<open>The groups of two peak sets\<close>

lemma scenario_groups:
  "peak_groups 500 [100, 150, 2000, 2050] = [[100, 150], [2000, 2050]] \<and>
   provisional_starts [100, 150, 2000, 2050] 500 = [100, 2000] \<and>
   provisional_ends [100, 150, 2000, 2050] 500 = [150, 2050]"
  by code_simp

lemma example_envelope_groups: "peak_groups 20 [1, 51] = [[1], [51]]"
  by simp

subsection \<open>The constructor on a rate of zero, an empty envelope and a negative rate\<close>

text \<open>
  \<^verbatim>\<open>Burst.__init__\<close> checks neither the rate nor the length of its data. At rate zero
  it raises whatever the library does (line 44 divides by zero if nothing raised before),
  and an empty envelope has no peak, so \<^verbatim>\<open>long_burst\<close> raises IndexError.
\<close>

lemma peaks_Nil: "peaks [] = []"
proof -
  have "local_maxima_1d [] = []" by code_simp
  then show ?thesis by (simp add: peaks_def find_peaks_def)
qed

lemma Burst_init_rate_zero: "\<exists>e. Burst_init lib (Some d) 0 = Inl e"
  by (auto simp add: Burst_init_def rms_segment_zero split: sum.splits)

lemma Burst_init_empty_envelope:
  assumes "band_pass lib d 90 250 srate = Inr myrecBP"
    and "decimate lib myrecBP 60 = Inr myrecDS"
    and "rms_segment srate = Inr segment"
    and "rms lib myrecDS segment = Inr []"
  shows "Burst_init lib (Some d) srate = Inl IndexError"
  using assms by (simp add: Burst_init_def long_burst_no_peaks [OF peaks_Nil])

text \<open>
  At a negative rate the lines of \<^verbatim>\<open>Burst.__init__\<close> and \<^verbatim>\<open>long_burst\<close>
  themselves raise nothing: what the call does is decided by the library. With the
  stand-in library, which accepts every rate, the call returns a result.
\<close>

lemma Burst_init_negative_rate_passthrough:
  "Burst_init passthrough_lfp (Some example_envelope) (- 1200) = Inr \<lparr>idx = [(1, 1), (51, 51)]\<rparr>"
proof -
  have m: "fl (- 1200 / 60) = - 20"
  proof -
    have "(- 1200 / 60 :: real) = - 20" by simp
    then show ?thesis by (simp only: fl_minus_20)
  qed
  have "bursts_of_peaks example_envelope (- 20) 13 [1, 51] = Inr [(1, 1), (51, 51)]"
    unfolding example_envelope_def by code_simp
  then have "long_burst example_envelope (- 20) = Inr [(1, 1), (51, 51)]"
    using example_envelope_peaks by (simp add: long_burst_def peaks_def example_envelope_std)
  then have "long_burst example_envelope (fl (- 1200 / 60)) = Inr [(1, 1), (51, 51)]"
    by (simp only: m)
  then show ?thesis
    unfolding Burst_init_def by (simp add: passthrough_lfp_def rms_segment_minus_1200)
qed

section \<open>The claims\<close>

subsection \<open>An envelope without a peak\<close>

lemma no_peak_envelope_std: "std [1, 3, 1, 3] = 1"
  by (simp add: std_def mean_def)

lemma no_peak_envelope_peaks: "peaks [1, 3, 1, 3] = []"
proof -
  have "local_maxima_1d [1, 3, 1, 3] = [1]" by code_simp
  then show ?thesis by (simp add: peaks_def find_peaks_def no_peak_envelope_std)
qed

text \<open>
  C1 (the code raises where the claim promises an empty result). The envelope
  \<open>[1, 3, 1, 3]\<close> has the standard deviation 1, so \<open>highthr = 5\<close> and its one local
  maximum, of height 3, is no peak. With no peak, \<^verbatim>\<open>p[start]\<close> of line 99 reads
  position 0 of an empty array: the call raises IndexError and returns nothing.
\<close>

theorem long_burst_without_peaks_raises:
  "std [1, 3, 1, 3] * 5 = 5 \<and> peaks [1, 3, 1, 3] = [] \<and>
   long_burst [1, 3, 1, 3] 500 = Inl IndexError"
  by (simp add: no_peak_envelope_std no_peak_envelope_peaks long_burst_no_peaks)

subsection \<open>Refinement stays inside its window\<close>

text \<open>
  C6. For a rate that is not negative, the start of every returned interval is at least its
  provisional start minus the 100 ms window \<^verbatim>\<open>int(0.100*srate)\<close>, and its end is
  at most its provisional end plus the 250 ms window \<^verbatim>\<open>int(0.250*srate)\<close>.
\<close>

theorem refinement_stays_in_window:
  assumes "long_burst rmsdata srate = Inr res" and "0 \<le> srate" and "i < length res"
  shows "i < length (provisional_starts (peaks rmsdata) srate) \<and>
         i < length (provisional_ends (peaks rmsdata) srate) \<and>
         provisional_starts (peaks rmsdata) srate ! i - py_int (0.100 * srate) \<le> fst (res ! i) \<and>
         snd (res ! i) \<le> provisional_ends (peaks rmsdata) srate ! i + py_int (0.250 * srate)"
proof -
  note shape = long_burst_nth [OF assms(1) assms(3)]
  define x where "x = provisional_starts (peaks rmsdata) srate ! i"
  define y where "y = provisional_ends (peaks rmsdata) srate ! i"
  from assms(2) have w: "0 \<le> py_int (0.100 * srate)" and W: "0 \<le> py_int (0.250 * srate)"
    by (simp_all add: py_int_nonneg)
  from provisional_start_valid [OF shape(1) shape(3)]
  have x: "0 \<le> x" "x < int (length rmsdata)" by (simp_all add: x_def)
  from provisional_end_valid [OF shape(1) shape(4)] have y: "0 \<le> y" by (simp add: y_def)
  from refine_start_cases [OF x, of srate "std rmsdata"] w
  have "x - py_int (0.100 * srate) \<le> refine_start rmsdata srate (std rmsdata) x" by auto
  moreover from refine_end_cases [OF W y, of rmsdata "std rmsdata"] W
  have "refine_end rmsdata srate (std rmsdata) y \<le> y + py_int (0.250 * srate)" by auto
  ultimately show ?thesis using shape(3-6) by (simp add: x_def y_def)
qed

theorem refinement_stays_in_window_witness:
  "long_burst example_envelope 20 = Inr [(1, 1), (50, 55)] \<and>
   provisional_starts (peaks example_envelope) 20 = [1, 51] \<and>
   provisional_ends (peaks example_envelope) 20 = [1, 51] \<and>
   py_int (0.100 * 20) = 2 \<and> py_int (0.250 * 20) = 5 \<and>
   provisional_starts (peaks example_envelope) 20 ! 1 - py_int (0.100 * 20)
     \<le> fst (([(1, 1), (50, 55)] :: (int \<times> int) list) ! 1) \<and>
   snd (([(1, 1), (50, 55)] :: (int \<times> int) list) ! 1)
     \<le> provisional_ends (peaks example_envelope) 20 ! 1 + py_int (0.250 * 20)"
  using refinement_stays_in_window [OF example_envelope_bursts, of 1]
    example_envelope_bursts example_envelope_provisional example_windows
  by (simp add: example_envelope_peaks)

subsection \<open>Starts are strictly increasing\<close>

text \<open>
  C7. In every result, the start of an interval is strictly smaller than the start of the
  next interval, also after the refinement of the starts, and for every rate.
\<close>

theorem starts_strictly_increasing:
  assumes "long_burst rmsdata srate = Inr res" and "Suc i < length res"
  shows "fst (res ! i) < fst (res ! Suc i)"
proof -
  from assms(2) have i: "i < length res" by simp
  note shape0 = long_burst_nth [OF assms(1) i]
  note shape1 = long_burst_nth [OF assms(1) assms(2)]
  define a where "a = provisional_starts (peaks rmsdata) srate ! i"
  define b where "b = provisional_starts (peaks rmsdata) srate ! Suc i"
  from provisional_starts_step [OF peaks_sorted shape1(3)]
  have far: "srate < real_of_int (b - a)" and lt: "a < b" by (simp_all add: a_def b_def)
  from provisional_start_valid [OF shape0(1) shape0(3)]
  have a: "0 \<le> a" "a < int (length rmsdata)" by (simp_all add: a_def)
  from provisional_start_valid [OF shape1(1) shape1(3)]
  have b: "0 \<le> b" "b < int (length rmsdata)" by (simp_all add: b_def)
  from refine_start_cases [OF a, of srate "std rmsdata"]
  have left: "refine_start rmsdata srate (std rmsdata) a \<le> a" by auto
  have right: "a < refine_start rmsdata srate (std rmsdata) b"
    using refine_start_cases [OF b, of srate "std rmsdata"]
  proof
    assume "refine_start rmsdata srate (std rmsdata) b = b"
    with lt show ?thesis by simp
  next
    assume "\<exists>k. 0 < py_int (0.100 * srate) \<and>
      refine_start rmsdata srate (std rmsdata) b = b - int k \<and>
      int k < py_int (0.100 * srate) \<and> int k \<le> b"
    then obtain k where k: "0 < py_int (0.100 * srate)"
      "refine_start rmsdata srate (std rmsdata) b = b - int k" "int k < py_int (0.100 * srate)"
      by blast
    from py_int_tenth_le [OF k(1)] k(3) have "real_of_int (int k) < srate" by linarith
    with far have "real_of_int (int k) < real_of_int (b - a)" by linarith
    then have "int k < b - a" by linarith
    with k(2) show ?thesis by simp
  qed
  from left right shape0(5) shape1(5) show ?thesis by (simp add: a_def b_def)
qed

theorem starts_strictly_increasing_witness:
  "long_burst example_envelope 20 = Inr [(1, 1), (50, 55)] \<and>
   Suc 0 < length ([(1, 1), (50, 55)] :: (int \<times> int) list) \<and>
   fst (([(1, 1), (50, 55)] :: (int \<times> int) list) ! 0)
     < fst (([(1, 1), (50, 55)] :: (int \<times> int) list) ! Suc 0)"
  using starts_strictly_increasing [OF example_envelope_bursts, of 0] example_envelope_bursts
  by simp

subsection \<open>Starts are never negative\<close>

text \<open>
  C9. Every start of a result is at least 0. In particular, for a provisional start
  \<open>x\<close> smaller than the 100 ms window, in an envelope at least as long as the window,
  the stop \<open>x - window\<close> of the slice is negative and counts from the back of the
  envelope: the slice \<^verbatim>\<open>rmsdata[x : x - window : -1]\<close> is empty whatever the samples
  are, and the start is left as it is.
\<close>

theorem start_nonnegative_and_unchanged_near_front:
  "(long_burst rmsdata srate = Inr res \<longrightarrow> (\<forall>i<length res. 0 \<le> fst (res ! i))) \<and>
   (0 \<le> x \<and> x < py_int (0.100 * srate) \<and> py_int (0.100 * srate) \<le> int (length rmsdata) \<longrightarrow>
      slice_rev rmsdata x (x - py_int (0.100 * srate)) = [] \<and>
      refine_start rmsdata srate lowthr x = x)"
proof (intro conjI impI allI)
  fix i
  assume r: "long_burst rmsdata srate = Inr res" and i: "i < length res"
  note shape = long_burst_nth [OF r i]
  from provisional_start_valid [OF shape(1) shape(3)] shape(5)
  show "0 \<le> fst (res ! i)" by (simp add: refine_start_nonneg)
next
  assume a: "0 \<le> x \<and> x < py_int (0.100 * srate) \<and> py_int (0.100 * srate) \<le> int (length rmsdata)"
  then show e: "slice_rev rmsdata x (x - py_int (0.100 * srate)) = []"
    by (intro slice_rev_wraps_empty) simp_all
  show "refine_start rmsdata srate lowthr x = x"
    unfolding refine_start_def e by (simp add: np_where_def)
qed

theorem start_nonnegative_and_unchanged_near_front_witness:
  "long_burst example_envelope 20 = Inr [(1, 1), (50, 55)] \<and>
   (0::int) \<le> fst (([(1, 1), (50, 55)] :: (int \<times> int) list) ! 0) \<and>
   (0::int) \<le> fst (([(1, 1), (50, 55)] :: (int \<times> int) list) ! 1) \<and>
   (0::int) \<le> 1 \<and> 1 < py_int (0.100 * 20) \<and>
   py_int (0.100 * 20) \<le> int (length example_envelope) \<and>
   example_envelope ! 0 < 13 \<and>
   slice_rev example_envelope 1 (1 - py_int (0.100 * 20)) = [] \<and>
   refine_start example_envelope 20 13 1 = 1"
proof -
  let ?res = "[(1, 1), (50, 55)] :: (int \<times> int) list"
  have h: "(0::int) \<le> 1 \<and> 1 < py_int (0.100 * 20) \<and>
           py_int (0.100 * 20) \<le> int (length example_envelope)"
    by (simp add: py_int_def example_envelope_length)
  have z: "example_envelope ! 0 < 13" by (simp add: example_envelope_def)
  note t = start_nonnegative_and_unchanged_near_front [of example_envelope 20 ?res 1 13]
  from t [THEN conjunct1, THEN mp, OF example_envelope_bursts]
  have a: "\<forall>i<length ?res. 0 \<le> fst (?res ! i)" .
  from t [THEN conjunct2, THEN mp, OF h]
  have b: "slice_rev example_envelope 1 (1 - py_int (0.100 * 20)) = [] \<and>
           refine_start example_envelope 20 13 1 = 1" .
  from a have a0: "0 \<le> fst (?res ! 0)" by simp
  from a have a1: "0 \<le> fst (?res ! 1)" by simp
  from example_envelope_bursts a0 a1 h z b show ?thesis by blast
qed

subsection \<open>An end beyond the envelope\<close>

text \<open>
  C5 (the code returns an end that is no position of the envelope). In the sample
  envelope the last peak is at 51 and the 250 ms window is 5 samples, so the slice
  \<^verbatim>\<open>rmsdata[56:51:-1]\<close> is clamped to start at the last sample, 53, and holds the
  samples at 53 and 52. The shoulder at 52 is found at offset 1 of the clamped slice, and
  line 120 adds \<open>5 - 1\<close> to 51: the end is 55, in an envelope of 54 samples.
\<close>

theorem end_index_beyond_envelope:
  "long_burst example_envelope 20 = Inr [(1, 1), (50, 55)] \<and>
   int (length example_envelope) = 54 \<and>
   peaks example_envelope = [1, 51] \<and>
   slice_rev example_envelope (51 + py_int (0.250 * 20)) 51 = [0, 30] \<and>
   \<not> snd (([(1, 1), (50, 55)] :: (int \<times> int) list) ! 1) < int (length example_envelope)"
proof -
  have "slice_rev example_envelope (51 + py_int (0.250 * 20)) 51 = [0, 30]"
    unfolding example_envelope_def by code_simp
  then show ?thesis
    by (simp add: example_envelope_bursts example_envelope_length example_envelope_peaks)
qed

subsection \<open>The forward scan\<close>

text \<open>
  C2, as stated, at the envelope with the shoulder: the window of the end peak at 1 holds
  the samples at 6, 5, 4, 3, 2, the farthest first, and the first sample above
  \<open>lowthr = 13\<close> is the fifth one tested, the shoulder at position 2. With the offset
  counted from 1 the claim gives the end \<open>1 + (5 - 5) = 1\<close>; the code returns 2.
\<close>

theorem forward_scan_one_indexed_counterexample:
  "long_burst shoulder_envelope 20 = Inr [(1, 2), (50, 51)] \<and>
   std shoulder_envelope = 13 \<and>
   provisional_ends (peaks shoulder_envelope) 20 = [1, 51] \<and>
   py_int (0.250 * 20) = 5 \<and>
   slice_rev shoulder_envelope (1 + py_int (0.250 * 20)) 1 = [0, 0, 0, 0, 30] \<and>
   snd (([(1, 2), (50, 51)] :: (int \<times> int) list) ! 0) \<noteq> 1 + (py_int (0.250 * 20) - 5)"
proof -
  have W: "py_int (0.250 * 20) = 5" by (simp add: py_int_def)
  have pe: "provisional_ends (peaks shoulder_envelope) 20 = [1, 51]"
    unfolding shoulder_envelope_peaks by (rule example_envelope_provisional [THEN conjunct2])
  have ne: "snd (([(1, 2), (50, 51)] :: (int \<times> int) list) ! 0) \<noteq> 1 + (py_int (0.250 * 20) - 5)"
    unfolding W by simp
  from shoulder_envelope_bursts shoulder_envelope_std pe W shoulder_envelope_window ne
  show ?thesis by blast
qed

text \<open>
  C2, amended: the offset is counted from 0. For a rate that is not negative and a
  provisional end \<open>x\<close> whose 250 ms window lies inside the envelope, the samples at
  \<open>x + window - j\<close> are tested for \<open>j = 0, 1, ...\<close>, the farthest first; if the
  first sample above \<open>lowthr\<close> has the offset \<open>k\<close>, the end is
  \<open>x + (window - k)\<close>, the position of that sample; if no sample of the window is above
  \<open>lowthr\<close>, the end stays \<open>x\<close>.
\<close>

theorem forward_scan_refines_end:
  assumes "long_burst rmsdata srate = Inr res" and "i < length res" and "0 \<le> srate"
    and "provisional_ends (peaks rmsdata) srate ! i + py_int (0.250 * srate) < int (length rmsdata)"
  shows "(\<forall>k. int k < py_int (0.250 * srate) \<and>
              std rmsdata < rmsdata ! nat (provisional_ends (peaks rmsdata) srate ! i
                                            + py_int (0.250 * srate) - int k) \<and>
              (\<forall>j<k. \<not> std rmsdata < rmsdata ! nat (provisional_ends (peaks rmsdata) srate ! i
                                            + py_int (0.250 * srate) - int j))
            \<longrightarrow> snd (res ! i) = provisional_ends (peaks rmsdata) srate ! i
                                   + (py_int (0.250 * srate) - int k)) \<and>
         ((\<forall>j<nat (py_int (0.250 * srate)).
              \<not> std rmsdata < rmsdata ! nat (provisional_ends (peaks rmsdata) srate ! i
                                            + py_int (0.250 * srate) - int j))
            \<longrightarrow> snd (res ! i) = provisional_ends (peaks rmsdata) srate ! i)"
proof -
  note shape = long_burst_nth [OF assms(1) assms(2)]
  define x where "x = provisional_ends (peaks rmsdata) srate ! i"
  from provisional_end_valid [OF shape(1) shape(4)] have x: "0 \<le> x" by (simp add: x_def)
  from assms(3) have W: "0 \<le> py_int (0.250 * srate)" by (simp add: py_int_nonneg)
  from assms(4) have inside: "x + py_int (0.250 * srate) < int (length rmsdata)"
    by (simp add: x_def)
  have "snd (res ! i) = x + (py_int (0.250 * srate) - int k)"
    if "int k < py_int (0.250 * srate)"
      and "std rmsdata < rmsdata ! nat (x + py_int (0.250 * srate) - int k)"
      and "\<forall>j<k. \<not> std rmsdata < rmsdata ! nat (x + py_int (0.250 * srate) - int j)" for k
    using refine_end_found [OF x W inside that] shape(6) by (simp add: x_def)
  moreover have "snd (res ! i) = x"
    if "\<forall>j<nat (py_int (0.250 * srate)).
          \<not> std rmsdata < rmsdata ! nat (x + py_int (0.250 * srate) - int j)"
    using refine_end_not_found [OF x W inside that] shape(6) by (simp add: x_def)
  ultimately show ?thesis unfolding x_def by blast
qed

theorem forward_scan_refines_end_witness:
  "long_burst shoulder_envelope 20 = Inr [(1, 2), (50, 51)] \<and>
   provisional_ends (peaks shoulder_envelope) 20 ! 0 = 1 \<and>
   py_int (0.250 * 20) = 5 \<and>
   1 + 5 < int (length shoulder_envelope) \<and>
   std shoulder_envelope < shoulder_envelope ! nat (1 + 5 - int 4) \<and>
   snd (([(1, 2), (50, 51)] :: (int \<times> int) list) ! 0) = 1 + (5 - int 4) \<and>
   long_burst example_envelope 20 = Inr [(1, 1), (50, 55)] \<and>
   provisional_ends (peaks example_envelope) 20 ! 0 = 1 \<and>
   1 + 5 < int (length example_envelope) \<and>
   snd (([(1, 1), (50, 55)] :: (int \<times> int) list) ! 0) = 1"
proof -
  have W: "py_int (0.250 * 20) = 5" by (simp add: py_int_def)
  have rate: "(0::real) \<le> 20" by simp
  text \<open>The shoulder at position 2 is found at offset 4 of the window of the peak at 1.\<close>
  let ?res = "[(1, 2), (50, 51)] :: (int \<times> int) list"
  have pe: "provisional_ends (peaks shoulder_envelope) 20 ! 0 = 1"
    unfolding shoulder_envelope_peaks by (simp add: example_envelope_provisional)
  have i: "0 < length ?res" by simp
  have inside: "1 + 5 < int (length shoulder_envelope)" by (simp add: shoulder_envelope_length)
  then have inside': "provisional_ends (peaks shoulder_envelope) 20 ! 0 + py_int (0.250 * 20)
      < int (length shoulder_envelope)" unfolding pe W .
  have above: "std shoulder_envelope < shoulder_envelope ! nat (1 + 5 - int 4)"
    by (simp add: shoulder_envelope_std shoulder_envelope_2)
  have below: "\<not> std shoulder_envelope < shoulder_envelope ! nat (1 + 5 - int j)" if "j < 4" for j
  proof -
    from that have "nat (1 + 5 - int j) = 6 - j" by linarith
    moreover from that have "shoulder_envelope ! (6 - j) = 0"
      by (intro shoulder_envelope_zero) simp_all
    ultimately show ?thesis by (simp add: shoulder_envelope_std)
  qed
  have found: "int 4 < py_int (0.250 * 20) \<and>
      std shoulder_envelope < shoulder_envelope ! nat (provisional_ends (peaks shoulder_envelope) 20 ! 0
                                            + py_int (0.250 * 20) - int 4) \<and>
      (\<forall>j<4. \<not> std shoulder_envelope < shoulder_envelope ! nat (provisional_ends (peaks shoulder_envelope) 20 ! 0
                                            + py_int (0.250 * 20) - int j))"
    unfolding pe W using above below by simp
  from forward_scan_refines_end [OF shoulder_envelope_bursts i rate inside',
      THEN conjunct1, THEN spec, THEN mp, OF found]
  have r1: "snd (?res ! 0) = 1 + (5 - int 4)" unfolding pe W .
  text \<open>Nothing is above the threshold in the window of the peak at 1 of the sample envelope.\<close>
  let ?res' = "[(1, 1), (50, 55)] :: (int \<times> int) list"
  have pe': "provisional_ends (peaks example_envelope) 20 ! 0 = 1"
    unfolding example_envelope_peaks by (simp add: example_envelope_provisional)
  have i': "0 < length ?res'" by simp
  have in2: "1 + 5 < int (length example_envelope)" by (simp add: example_envelope_length)
  then have in2': "provisional_ends (peaks example_envelope) 20 ! 0 + py_int (0.250 * 20)
      < int (length example_envelope)" unfolding pe' W .
  have none': "\<not> std example_envelope < example_envelope ! nat (1 + 5 - int j)" if "j < 5" for j
  proof -
    from that have "nat (1 + 5 - int j) = 6 - j" by linarith
    moreover from that have "example_envelope ! (6 - j) = 0"
      by (intro example_envelope_zero) simp_all
    ultimately show ?thesis by (simp add: example_envelope_std)
  qed
  have none: "\<forall>j<nat (py_int (0.250 * 20)).
      \<not> std example_envelope < example_envelope ! nat (provisional_ends (peaks example_envelope) 20 ! 0
                                            + py_int (0.250 * 20) - int j)"
    unfolding pe' W using none' by simp
  from forward_scan_refines_end [OF example_envelope_bursts i' rate in2',
      THEN conjunct2, THEN mp, OF none]
  have r2: "snd (?res' ! 0) = 1" unfolding pe' .
  from shoulder_envelope_bursts pe W inside above r1 example_envelope_bursts pe' in2 r2
  show ?thesis by blast
qed

subsection \<open>The length of the RMS window\<close>




subsection \<open>Calling a \<^verbatim>\<open>Burst\<close> object\<close>

text \<open>
  C10. A call of the object at \<open>self\<close> that returns constructs a new object, at a new
  address, initialised by \<^verbatim>\<open>Burst.__init__\<close> from the arguments, and the object at
  \<open>self\<close> is as before. The module's object \<^verbatim>\<open>burst\<close> is constructed without
  data, at address 0 with an empty \<open>idx\<close>; after any series of calls through it, whatever
  the library does, its \<open>idx\<close> is empty and its length is 0.
\<close>

theorem call_leaves_receiver_unchanged:
  "(self < length st \<and> Burst_call lib self data srate st = Inr (a, st') \<longrightarrow>
      a \<noteq> self \<and> a = length st \<and> st' ! self = st ! self \<and>
      Burst_init lib data srate = Inr (st' ! a)) \<and>
   module_burst lib = Inr (0, [\<lparr>idx = []\<rparr>]) \<and>
   idx (calls_through lib 0 cs [\<lparr>idx = []\<rparr>] ! 0) = [] \<and>
   Burst_len 0 (calls_through lib 0 cs [\<lparr>idx = []\<rparr>]) = 0"
proof (intro conjI impI)
  assume h: "self < length st \<and> Burst_call lib self data srate st = Inr (a, st')"
  then have n: "new_Burst lib data srate st = Inr (a, st')" by (simp add: Burst_call_def)
  from new_Burst_frame(1) [OF n] h show "a \<noteq> self" by simp
  from new_Burst_frame(1) [OF n] show "a = length st" .
  from new_Burst_frame(3) [OF n] h show "st' ! self = st ! self" by simp
  from new_Burst_frame(4) [OF n] show "Burst_init lib data srate = Inr (st' ! a)" .
next
  show "module_burst lib = Inr (0, [\<lparr>idx = []\<rparr>])"
    by (simp add: module_burst_def new_Burst_def Burst_init_def)
next
  have "calls_through lib 0 cs [\<lparr>idx = []\<rparr>] ! 0 = [\<lparr>idx = []\<rparr>] ! 0"
    using calls_through_frame [of 0 "[\<lparr>idx = []\<rparr>]" lib cs] by simp
  then show a: "idx (calls_through lib 0 cs [\<lparr>idx = []\<rparr>] ! 0) = []" by simp
  then show "Burst_len 0 (calls_through lib 0 cs [\<lparr>idx = []\<rparr>]) = 0"
    by (simp add: Burst_len_def)
qed

theorem call_leaves_receiver_unchanged_witness:
  "(0::nat) < length [\<lparr>idx = []\<rparr>] \<and>
   Burst_call passthrough_lfp 0 (Some example_envelope) 1200 [\<lparr>idx = []\<rparr>]
     = Inr (1, [\<lparr>idx = []\<rparr>, \<lparr>idx = [(1, 1), (50, 55)]\<rparr>]) \<and>
   (1::nat) \<noteq> 0 \<and>
   [\<lparr>idx = []\<rparr>, \<lparr>idx = [(1, 1), (50, 55)]\<rparr>] ! 0 = \<lparr>idx = []\<rparr> \<and>
   calls_through passthrough_lfp 0 [(Some example_envelope, 1200), (None, 30000)] [\<lparr>idx = []\<rparr>]
     = [\<lparr>idx = []\<rparr>, \<lparr>idx = [(1, 1), (50, 55)]\<rparr>, \<lparr>idx = []\<rparr>] \<and>
   Burst_len 0
     (calls_through passthrough_lfp 0 [(Some example_envelope, 1200), (None, 30000)]
        [\<lparr>idx = []\<rparr>]) = 0"
proof -
  let ?st = "[\<lparr>idx = []\<rparr>] :: store"
  let ?st' = "[\<lparr>idx = []\<rparr>, \<lparr>idx = [(1, 1), (50, 55)]\<rparr>] :: store"
  let ?cs = "[(Some example_envelope, 1200), (None, 30000)] :: (real list option \<times> real) list"
  have l: "(0::nat) < length ?st" by simp
  have c: "Burst_call passthrough_lfp 0 (Some example_envelope) 1200 ?st = Inr (1, ?st')"
    by (simp add: Burst_call_def new_Burst_def passthrough_init)
  have c2: "Burst_call passthrough_lfp 0 None 30000 ?st'
      = Inr (2, [\<lparr>idx = []\<rparr>, \<lparr>idx = [(1, 1), (50, 55)]\<rparr>, \<lparr>idx = []\<rparr>])"
    by (simp add: Burst_call_def new_Burst_def Burst_init_def)
  have run: "calls_through passthrough_lfp 0 ?cs ?st
      = [\<lparr>idx = []\<rparr>, \<lparr>idx = [(1, 1), (50, 55)]\<rparr>, \<lparr>idx = []\<rparr>]"
    by (simp add: c c2)
  note t = call_leaves_receiver_unchanged
    [of 0 ?st passthrough_lfp "Some example_envelope" 1200 1 ?st' ?cs]
  from t [THEN conjunct1, THEN mp, OF conjI, OF l c]
  have a: "(1::nat) \<noteq> 0" and b: "?st' ! 0 = ?st ! 0" by blast+
  from b have b': "?st' ! 0 = \<lparr>idx = []\<rparr>" by simp
  from t have len: "Burst_len 0 (calls_through passthrough_lfp 0 ?cs ?st) = 0" by blast
  from l c a b' run len show ?thesis by blast
qed

subsection \<open>One interval for each group of peaks\<close>

text \<open>
  C8. For an envelope with at least one peak the call returns; the number of intervals is
  the number of gaps between neighbouring peaks that exceed \<open>1 * srate\<close>, plus one; and
  the intervals are, in order, the groups into which the large gaps, and only they, cut the
  peaks: the interval of a group is the refined first peak and the refined last peak of
  the group.
\<close>

theorem one_interval_per_group:
  assumes "peaks rmsdata \<noteq> []"
  shows "\<exists>res. long_burst rmsdata srate = Inr res \<and>
           length res = card {i. Suc i < length (peaks rmsdata) \<and>
                                 1 * srate < real_of_int (peaks rmsdata ! Suc i - peaks rmsdata ! i)} + 1 \<and>
           length res = length (peak_groups srate (peaks rmsdata)) \<and>
           concat (peak_groups srate (peaks rmsdata)) = peaks rmsdata \<and>
           res = map (\<lambda>g. (refine_start rmsdata srate (std rmsdata) (hd g),
                            refine_end rmsdata srate (std rmsdata) (last g)))
                     (peak_groups srate (peaks rmsdata))"
proof -
  define p where "p = peaks rmsdata"
  define G where "G = peak_groups srate p"
  define res where "res = zip (map (refine_start rmsdata srate (std rmsdata)) (provisional_starts p srate))
                              (map (refine_end rmsdata srate (std rmsdata)) (provisional_ends p srate))"
  from assms have ne: "p \<noteq> []" by (simp add: p_def)
  from long_burst_peaks [OF assms, of srate] have r: "long_burst rmsdata srate = Inr res"
    by (simp add: res_def p_def)
  have len: "length res = Suc (length (large_gaps p srate))"
    by (simp add: res_def length_provisional_starts length_provisional_ends)
  then have count: "length res = card {i. Suc i < length p \<and>
                                 1 * srate < real_of_int (p ! Suc i - p ! i)} + 1"
    by (simp only: large_gaps_card)
  have starts: "provisional_starts p srate = map hd G"
    unfolding G_def by (rule hd_peak_groups [OF ne, symmetric])
  have ends: "provisional_ends p srate = map last G"
    unfolding G_def by (rule last_peak_groups [OF ne, symmetric])
  have shape: "res = map (\<lambda>g. (refine_start rmsdata srate (std rmsdata) (hd g),
                            refine_end rmsdata srate (std rmsdata) (last g))) G"
    unfolding res_def starts ends by (simp add: zip_map_map zip_same_conv_map)
  then have "length res = length G" by simp
  moreover have "concat G = p" unfolding G_def by (rule concat_peak_groups)
  ultimately show ?thesis using r count shape unfolding G_def p_def by blast
qed

theorem one_interval_per_group_witness:
  "peaks example_envelope \<noteq> [] \<and>
   long_burst example_envelope 20 = Inr [(1, 1), (50, 55)] \<and>
   peak_groups 20 (peaks example_envelope) = [[1], [51]] \<and>
   (\<exists>res. long_burst example_envelope 20 = Inr res \<and>
      length res = card {i. Suc i < length (peaks example_envelope) \<and>
                            1 * 20 < real_of_int (peaks example_envelope ! Suc i - peaks example_envelope ! i)} + 1 \<and>
      length res = length (peak_groups 20 (peaks example_envelope)) \<and>
      concat (peak_groups 20 (peaks example_envelope)) = peaks example_envelope \<and>
      res = map (\<lambda>g. (refine_start example_envelope 20 (std example_envelope) (hd g),
                       refine_end example_envelope 20 (std example_envelope) (last g)))
                (peak_groups 20 (peaks example_envelope)))"
proof -
  have ne: "peaks example_envelope \<noteq> []" by (simp add: example_envelope_peaks)
  have g: "peak_groups 20 (peaks example_envelope) = [[1], [51]]"
    unfolding example_envelope_peaks by (rule example_envelope_groups)
  from ne example_envelope_bursts g one_interval_per_group [OF ne, of 20]
  show ?thesis by blast
qed

end
